theory Spec2Isabelle
  imports Main
begin

section \<open>Python values and built-ins used by \<open>fuzzy_dates.py\<close>\<close>

text \<open>
  The module works on Python strings, integers and \<open>None\<close>. A Python string is modelled
  as a \<open>string\<close> whose characters are the code points 0 to 255; in that range the only
  decimal digits (\<open>\d\<close> of \<open>re\<close>, and the digits \<open>int()\<close> reads) are \<open>0\<close> to \<open>9\<close> and
  the white space \<open>int()\<close> strips is the code points 9 to 13, 32, 133 and 160. The
  interpreter's configurable cap on the length of a decimal literal is not modelled.
  A keyword argument of the constructor is \<open>None\<close> or a string or an integer.
\<close>

datatype pyval = PStr string | PInt int

datatype error =
    MissingYear            \<comment> \<open>ValueError "Year must be specified"\<close>
  | DayWithoutMonth        \<comment> \<open>ValueError "If day is specified, month must also be specified"\<close>
  | InvalidCalendarDate    \<comment> \<open>ValueError raised by \<open>datetime.date(...)\<close>\<close>
  | Overflow               \<comment> \<open>OverflowError raised by \<open>datetime.date(...)\<close>\<close>
  | YearOutOfRange         \<comment> \<open>ValueError "The year must be no less than 1000 ..."\<close>
  | MalformedInput         \<comment> \<open>ValueError "Dates given as a string must be formatted as ..."\<close>
  | InvalidInputType       \<comment> \<open>TypeError "Only a string, a date, or a datetime ..."\<close>
  | InvalidRangeDefault    \<comment> \<open>ValueError "Valid values for `default` are ..."\<close>
  | InvalidIntLiteral      \<comment> \<open>ValueError raised by \<open>int(...)\<close> on a string\<close>
  | IllegalMonth           \<comment> \<open>\<open>calendar.IllegalMonthError\<close> raised by \<open>calendar.monthrange\<close>\<close>

datatype date = Date int int int

text \<open>Truthiness: \<open>None\<close>, the empty string and the integer 0 are false.\<close>

fun val_truthy :: "pyval \<Rightarrow> bool" where
  "val_truthy (PStr s) = (s \<noteq> [])"
| "val_truthy (PInt i) = (i \<noteq> 0)"

fun truthy :: "pyval option \<Rightarrow> bool" where
  "truthy None = False"
| "truthy (Some v) = val_truthy v"

text \<open>\<open>x or dflt\<close> on an optional value.\<close>

definition py_or :: "pyval option \<Rightarrow> pyval \<Rightarrow> pyval" where
  "py_or x dflt = (case x of None \<Rightarrow> dflt | Some v \<Rightarrow> if val_truthy v then v else dflt)"

text \<open>\<open>s or dflt\<close> on strings.\<close>

definition str_or :: "string \<Rightarrow> string \<Rightarrow> string" where
  "str_or s dflt = (if s \<noteq> [] then s else dflt)"

subsection \<open>Decimal digits, \<open>int()\<close> and \<open>str()\<close>\<close>

definition is_digit :: "char \<Rightarrow> bool" where
  "is_digit c \<longleftrightarrow> 48 \<le> (of_char c :: nat) \<and> (of_char c :: nat) \<le> 57"

definition digit_val :: "char \<Rightarrow> int" where
  "digit_val c = int (of_char c) - 48"

definition digit_char :: "nat \<Rightarrow> char" where
  "digit_char n = char_of (48 + n)"

definition py_isspace :: "char \<Rightarrow> bool" where
  "py_isspace c \<longleftrightarrow> (of_char c :: nat) \<in> {9, 10, 11, 12, 13, 32, 133, 160}"

definition py_strip :: "string \<Rightarrow> string" where
  "py_strip s = rev (dropWhile py_isspace (rev (dropWhile py_isspace s)))"

text \<open>
  The digits of an integer literal after the first one: digits, with single underscores
  allowed between two digits.
\<close>

fun int_digits :: "int \<Rightarrow> string \<Rightarrow> int option" where
  "int_digits acc [] = Some acc"
| "int_digits acc (c # cs) =
     (if is_digit c then int_digits (10 * acc + digit_val c) cs
      else if c = CHR ''_'' then
        (case cs of
           [] \<Rightarrow> None
         | d # ds \<Rightarrow> if is_digit d then int_digits (10 * acc + digit_val d) ds else None)
      else None)"

definition int_body :: "string \<Rightarrow> int option" where
  "int_body s = (case s of
       [] \<Rightarrow> None
     | c # cs \<Rightarrow> if is_digit c then int_digits (digit_val c) cs else None)"

text \<open>\<open>int(s)\<close> for a string: surrounding white space, an optional sign, the digits.\<close>

definition int_of_str :: "string \<Rightarrow> int option" where
  "int_of_str s = (case py_strip s of
       [] \<Rightarrow> None
     | c # cs \<Rightarrow>
         if c = CHR ''+'' then int_body cs
         else if c = CHR ''-'' then map_option uminus (int_body cs)
         else int_body (c # cs))"

fun py_int :: "pyval \<Rightarrow> error + int" where
  "py_int (PInt i) = Inr i"
| "py_int (PStr s) = (case int_of_str s of None \<Rightarrow> Inl InvalidIntLiteral | Some i \<Rightarrow> Inr i)"

fun str_of_nat :: "nat \<Rightarrow> string" where
  "str_of_nat n = (if n < 10 then [digit_char n] else str_of_nat (n div 10) @ [digit_char (n mod 10)])"

declare str_of_nat.simps [simp del]

definition str_of_int :: "int \<Rightarrow> string" where
  "str_of_int i = (if i < 0 then CHR ''-'' # str_of_nat (nat (- i)) else str_of_nat (nat i))"

text \<open>The f-string fields \<open>f"{v}"\<close> and \<open>f"{v:>02}"\<close> (right-aligned, filled with \<open>0\<close> to width 2).\<close>

fun fmt_plain :: "pyval \<Rightarrow> string" where
  "fmt_plain (PStr s) = s"
| "fmt_plain (PInt i) = str_of_int i"

definition pad2 :: "string \<Rightarrow> string" where
  "pad2 s = replicate (2 - length s) (CHR ''0'') @ s"

definition fmt_pad2 :: "pyval \<Rightarrow> string" where
  "fmt_pad2 v = pad2 (fmt_plain v)"

text \<open>Comparison of strings with \<open><\<close>: by code point, a proper prefix first.\<close>

fun str_lt :: "string \<Rightarrow> string \<Rightarrow> bool" where
  "str_lt [] [] = False"
| "str_lt [] (b # bs) = True"
| "str_lt (a # as) [] = False"
| "str_lt (a # as) (b # bs) =
     ((of_char a :: nat) < of_char b \<or> (a = b \<and> str_lt as bs))"

subsection \<open>\<open>datetime.date\<close> and \<open>calendar.monthrange\<close>\<close>

definition isleap :: "int \<Rightarrow> bool" where
  "isleap y \<longleftrightarrow> y mod 4 = 0 \<and> (y mod 100 \<noteq> 0 \<or> y mod 400 = 0)"

definition days_in_month :: "int \<Rightarrow> int \<Rightarrow> int" where
  "days_in_month y m =
     (if m = 2 then (if isleap y then 29 else 28)
      else if m = 4 \<or> m = 6 \<or> m = 9 \<or> m = 11 then 30
      else 31)"

text \<open>
  \<open>date(year, month, day)\<close> first converts its three arguments to C integers and raises
  OverflowError when one of them does not fit; it then raises ValueError unless the
  triple is a calendar date. OverflowError is no ValueError.
\<close>

definition c_int :: "int \<Rightarrow> bool" where
  "c_int i \<longleftrightarrow> - 2147483648 \<le> i \<and> i \<le> 2147483647"

definition py_date :: "int \<Rightarrow> int \<Rightarrow> int \<Rightarrow> error + date" where
  "py_date y m d =
     (if \<not> c_int y \<or> \<not> c_int m \<or> \<not> c_int d then Inl Overflow
      else if y < 1 \<or> 9999 < y then Inl InvalidCalendarDate
      else if m < 1 \<or> 12 < m then Inl InvalidCalendarDate
      else if d < 1 \<or> days_in_month y m < d then Inl InvalidCalendarDate
      else Inr (Date y m d))"

text \<open>\<open>calendar.monthrange(year, month)[1]\<close>: the number of days of the month.\<close>

definition monthrange_days :: "int \<Rightarrow> int \<Rightarrow> error + int" where
  "monthrange_days y m =
     (if m < 1 \<or> 12 < m then Inl IllegalMonth else Inr (days_in_month y m))"

section \<open>The pattern \<open>DATE_PATTERN\<close>\<close>

text \<open>
  \<open>(\d{4})(?:[.\-/](\d{2})(?:[.\-/](\d{2}))?)?$\<close>, applied with \<open>match\<close>: anchored at the
  start; \<open>$\<close> holds at the end of the string and before a newline that ends the string.
  An optional group that does not take part in the match gives \<open>None\<close>.
\<close>

definition is_sep :: "char \<Rightarrow> bool" where
  "is_sep c \<longleftrightarrow> c = CHR ''.'' \<or> c = CHR ''-'' \<or> c = CHR ''/''"

definition at_dollar :: "string \<Rightarrow> bool" where
  "at_dollar r \<longleftrightarrow> r = [] \<or> r = [CHR 0x0A]"

text \<open>One separator followed by two digits: the digits and the rest of the input.\<close>

fun sep_two_digits :: "string \<Rightarrow> (string \<times> string) option" where
  "sep_two_digits (s # a # b # r) =
     (if is_sep s \<and> is_digit a \<and> is_digit b then Some ([a, b], r) else None)"
| "sep_two_digits _ = None"

definition DATE_PATTERN_match :: "string \<Rightarrow> (string \<times> string option \<times> string option) option" where
  "DATE_PATTERN_match s =
     (let y = take 4 s; r = drop 4 s in
      if length y = 4 \<and> list_all is_digit y then
        (case sep_two_digits r of
           Some (m, r2) \<Rightarrow>
             (case sep_two_digits r2 of
                Some (d, r3) \<Rightarrow>
                  if at_dollar r3 then Some (y, Some m, Some d)
                  else if at_dollar r2 then Some (y, Some m, None)
                  else if at_dollar r then Some (y, None, None)
                  else None
              | None \<Rightarrow>
                  if at_dollar r2 then Some (y, Some m, None)
                  else if at_dollar r then Some (y, None, None)
                  else None)
         | None \<Rightarrow> if at_dollar r then Some (y, None, None) else None)
      else None)"

section \<open>\<open>FuzzyDate\<close> and its metaclass\<close>

text \<open>
  A \<open>FuzzyDate\<close> is a \<open>str\<close> with three attributes. \<open>canonical\<close> is the string value
  \<open>"{y}.{m}.{d}"\<close> built by \<open>__new__\<close>; \<open>year\<close>, \<open>month\<close> and \<open>day\<close> are set by \<open>__init__\<close>,
  with the empty string for a component stored as \<open>"00"\<close>.
\<close>

record FuzzyDate =
  canonical :: string
  year :: string
  month :: string
  day :: string

definition FuzzyDate_new :: "string \<Rightarrow> string \<Rightarrow> string \<Rightarrow> FuzzyDate" where
  "FuzzyDate_new y m d =
     \<lparr> canonical = y @ ''.'' @ m @ ''.'' @ d,
       year = y,
       month = (if m \<noteq> ''00'' then m else ''''),
       day = (if d \<noteq> ''00'' then d else '''') \<rparr>"

text \<open>
  The positional argument \<open>seed\<close> of \<open>CustomMeta.__call__\<close>: a string, a \<open>date\<close> or
  \<open>datetime\<close>, or any other object, of which only the truth value matters.
\<close>

datatype seed = SeedStr string | SeedDate date | SeedOther bool

fun seed_truthy :: "seed option \<Rightarrow> bool" where
  "seed_truthy None = False"
| "seed_truthy (Some (SeedStr s)) = (s \<noteq> [])"
| "seed_truthy (Some (SeedDate dt)) = True"
| "seed_truthy (Some (SeedOther b)) = b"

definition fuzzy_value :: pyval where
  "fuzzy_value = PStr ''00''"

text \<open>
  Lines 41 to 55 of \<open>CustomMeta.__call__\<close>: the year, month and day taken from the seed,
  or from the keyword arguments \<open>y\<close>, \<open>m\<close>, \<open>d\<close> when the seed is false.
\<close>

definition read_arguments ::
  "seed option \<Rightarrow> pyval option \<Rightarrow> pyval option \<Rightarrow> pyval option
     \<Rightarrow> error + (pyval option \<times> pyval option \<times> pyval option)" where
  "read_arguments sd y m d =
     (if seed_truthy sd then
        (case sd of
           Some (SeedStr s) \<Rightarrow>
             (case DATE_PATTERN_match s of
                Some (yr, mo, dy) \<Rightarrow> Inr (Some (PStr yr), map_option PStr mo, map_option PStr dy)
              | None \<Rightarrow> Inl MalformedInput)
         | Some (SeedDate (Date yr mo dy)) \<Rightarrow> Inr (Some (PInt yr), Some (PInt mo), Some (PInt dy))
         | _ \<Rightarrow> Inl InvalidInputType)
      else Inr (y, m, d))"

text \<open>
  Lines 71 and 72: \<open>int(month) if month != fuzzy_value else 1\<close>, and the same for the
  day.
\<close>

definition component_int :: "pyval \<Rightarrow> error + int" where
  "component_int v = (if v \<noteq> fuzzy_value then py_int v else Inr 1)"

text \<open>
  Lines 57 to 85: the checks in the order of the source, then the keyword arguments
  handed to \<open>FuzzyDate.__new__\<close> and \<open>__init__\<close>.
\<close>

definition check_and_build ::
  "pyval option \<Rightarrow> pyval option \<Rightarrow> pyval option \<Rightarrow> error + FuzzyDate" where
  "check_and_build yr mo dy =
     (case yr of
        None \<Rightarrow> Inl MissingYear
      | Some yv \<Rightarrow>
          if \<not> val_truthy yv then Inl MissingYear
          else if truthy dy \<and> \<not> truthy mo then Inl DayWithoutMonth
          else
            let mv = py_or mo fuzzy_value;
                dv = py_or dy fuzzy_value
            in (case py_int yv of
                  Inl e \<Rightarrow> Inl e
                | Inr int_year \<Rightarrow>
                   (case component_int mv of
                      Inl e \<Rightarrow> Inl e
                    | Inr int_month \<Rightarrow>
                       (case component_int dv of
                          Inl e \<Rightarrow> Inl e
                        | Inr int_day \<Rightarrow>
                            if int_year < 1000 \<or> int_year > 9999 then Inl YearOutOfRange
                            else (case py_date int_year int_month int_day of
                                    Inl e \<Rightarrow> Inl e
                                  | Inr _ \<Rightarrow>
                                      Inr (FuzzyDate_new (fmt_plain yv) (fmt_pad2 mv) (fmt_pad2 dv)))))))"

definition CustomMeta_call ::
  "seed option \<Rightarrow> pyval option \<Rightarrow> pyval option \<Rightarrow> pyval option \<Rightarrow> error + FuzzyDate" where
  "CustomMeta_call sd y m d =
     (case read_arguments sd y m d of
        Inl e \<Rightarrow> Inl e
      | Inr (yr, mo, dy) \<Rightarrow> check_and_build yr mo dy)"

text \<open>
  The keyword form \<open>FuzzyDate(y=..., m=..., d=...)\<close> with three strings, as \<open>get_start\<close>
  and \<open>get_end\<close> call it.
\<close>

definition FuzzyDate_kw :: "string \<Rightarrow> string \<Rightarrow> string \<Rightarrow> error + FuzzyDate" where
  "FuzzyDate_kw y m d = CustomMeta_call None (Some (PStr y)) (Some (PStr m)) (Some (PStr d))"

definition as_list :: "FuzzyDate \<Rightarrow> string list" where
  "as_list self = [year self, month self, day self]"

definition is_fuzzy :: "FuzzyDate \<Rightarrow> bool" where
  "is_fuzzy self \<longleftrightarrow> day self = ''''"

definition get_start :: "FuzzyDate \<Rightarrow> error + FuzzyDate" where
  "get_start self =
     (let yr = year self;
          mo = str_or (month self) ''01'';
          dy = str_or (day self) ''01''
      in FuzzyDate_kw yr mo dy)"

text \<open>
  In \<open>get_end\<close> the right operand of \<open>or\<close>, with its calls of \<open>int\<close> and
  \<open>calendar.monthrange\<close>, is evaluated only when the day is empty.
\<close>

definition get_end :: "FuzzyDate \<Rightarrow> error + FuzzyDate" where
  "get_end self =
     (let yr = year self;
          mo = str_or (month self) ''12''
      in case (if day self \<noteq> [] then Inr (day self)
               else (case py_int (PStr yr) of
                       Inl e \<Rightarrow> Inl e
                     | Inr iy \<Rightarrow>
                        (case py_int (PStr mo) of
                           Inl e \<Rightarrow> Inl e
                         | Inr im \<Rightarrow>
                            (case monthrange_days iy im of
                               Inl e \<Rightarrow> Inl e
                             | Inr n \<Rightarrow> Inr (str_of_int n))))) of
           Inl e \<Rightarrow> Inl e
         | Inr dy \<Rightarrow> FuzzyDate_kw yr mo dy)"

definition get_range :: "FuzzyDate \<Rightarrow> error + (FuzzyDate \<times> FuzzyDate)" where
  "get_range self =
     (case get_start self of
        Inl e \<Rightarrow> Inl e
      | Inr s \<Rightarrow> (case get_end self of Inl e \<Rightarrow> Inl e | Inr e \<Rightarrow> Inr (s, e)))"

text \<open>Line 129: \<open>date(*[int(v) for v in non_fuzzy.as_list()])\<close>.\<close>

definition date_of_list :: "string list \<Rightarrow> error + date" where
  "date_of_list vs =
     (case vs of
        [ys, ms, ds] \<Rightarrow>
          (case py_int (PStr ys) of
             Inl e \<Rightarrow> Inl e
           | Inr iy \<Rightarrow>
              (case py_int (PStr ms) of
                 Inl e \<Rightarrow> Inl e
               | Inr im \<Rightarrow>
                  (case py_int (PStr ds) of
                     Inl e \<Rightarrow> Inl e
                   | Inr idy \<Rightarrow> py_date iy im idy)))
      | _ \<Rightarrow> Inl InvalidInputType)"

text \<open>
  \<open>as_date(default)\<close>: the result is \<open>None\<close> or a \<open>date\<close>. The argument \<open>default\<close> is
  \<open>None\<close>, a string or an integer.
\<close>

definition as_date :: "FuzzyDate \<Rightarrow> pyval option \<Rightarrow> error + date option" where
  "as_date self dflt =
     (if is_fuzzy self then
        (case dflt of
           None \<Rightarrow> Inr None
         | Some v \<Rightarrow>
             if v = PStr ''start'' then
               (case get_start self of
                  Inl e \<Rightarrow> Inl e
                | Inr nf \<Rightarrow> map_sum id Some (date_of_list (as_list nf)))
             else if v = PStr ''end'' then
               (case get_end self of
                  Inl e \<Rightarrow> Inl e
                | Inr nf \<Rightarrow> map_sum id Some (date_of_list (as_list nf)))
             else Inl InvalidRangeDefault)
      else map_sum id Some (date_of_list (as_list self)))"

section \<open>Notions used in the statements\<close>

text \<open>The value of a string of decimal digits, read from the left with a carry.\<close>

definition dec_val :: "int \<Rightarrow> string \<Rightarrow> int" where
  "dec_val acc s = foldl (\<lambda>a c. 10 * a + digit_val c) acc s"

text \<open>The integer of an attribute, with a substitute for the empty (absent) one.\<close>

definition comp_or :: "int \<Rightarrow> string \<Rightarrow> int option" where
  "comp_or dflt s = (if s = [] then Some dflt else int_of_str s)"

text \<open>
  What every constructed value satisfies: the year reads as an integer of the range, the
  month and the day are empty or read as integers, the triple with 1 for an empty
  component is a calendar date, and the string value is made of the three attributes
  with \<open>00\<close> for an empty one.
\<close>

definition valid_value :: "FuzzyDate \<Rightarrow> bool" where
  "valid_value v \<longleftrightarrow>
     (\<exists>Y M D. int_of_str (year v) = Some Y \<and> 1000 \<le> Y \<and> Y \<le> 9999
        \<and> comp_or 1 (month v) = Some M \<and> comp_or 1 (day v) = Some D
        \<and> py_date Y M D = Inr (Date Y M D)
        \<and> month v \<noteq> ''00'' \<and> day v \<noteq> ''00''
        \<and> (month v = [] \<or> 2 \<le> length (month v))
        \<and> (day v = [] \<or> 2 \<le> length (day v))
        \<and> canonical v = year v @ ''.'' @ str_or (month v) ''00'' @ ''.'' @ str_or (day v) ''00'')"

text \<open>
  A concrete component: a keyword or group that is given, is true in Python (not
  \<open>None\<close>, not the empty string, not the integer 0) and is not the placeholder \<open>"00"\<close>.
\<close>

definition concrete :: "pyval option \<Rightarrow> bool" where
  "concrete f \<longleftrightarrow> truthy f \<and> f \<noteq> Some (PStr ''00'')"

text \<open>
  A regular pair of month and day: no day beside no month or a true month; or the day
  \<open>"00"\<close> beside a true month; or a concrete day beside a concrete month.
\<close>

definition regular_pair :: "pyval option \<Rightarrow> pyval option \<Rightarrow> bool" where
  "regular_pair mo dy \<longleftrightarrow>
     (dy = None \<and> (mo = None \<or> truthy mo))
     \<or> (dy = Some (PStr ''00'') \<and> truthy mo)
     \<or> (concrete dy \<and> concrete mo)"

text \<open>The numeric triple (year, month or 0, day or 0) of a value, and its order.\<close>

definition numeric_triple :: "FuzzyDate \<Rightarrow> (int \<times> int \<times> int) option" where
  "numeric_triple v =
     (case int_of_str (year v) of
        None \<Rightarrow> None
      | Some Y \<Rightarrow>
         (case comp_or 0 (month v) of
            None \<Rightarrow> None
          | Some M \<Rightarrow>
             (case comp_or 0 (day v) of
                None \<Rightarrow> None
              | Some D \<Rightarrow> Some (Y, M, D))))"

fun triple_lt :: "int \<times> int \<times> int \<Rightarrow> int \<times> int \<times> int \<Rightarrow> bool" where
  "triple_lt (a, b, c) (x, y, z) \<longleftrightarrow> a < x \<or> (a = x \<and> (b < y \<or> (b = y \<and> c < z)))"

text \<open>
  Plain arguments: a seed, or keywords that are absent, integers or strings of at most
  \<open>w\<close> decimal digits. The arguments the module's own callers pass are of this kind.
\<close>

fun plain_field :: "nat \<Rightarrow> pyval option \<Rightarrow> bool" where
  "plain_field w None = True"
| "plain_field w (Some (PInt i)) = True"
| "plain_field w (Some (PStr s)) = (list_all is_digit s \<and> length s \<le> w)"

definition plain_input ::
  "seed option \<Rightarrow> pyval option \<Rightarrow> pyval option \<Rightarrow> pyval option \<Rightarrow> bool" where
  "plain_input sd y m d \<longleftrightarrow>
     seed_truthy sd \<or> (plain_field 4 y \<and> plain_field 2 m \<and> plain_field 2 d)"

definition digits_of_width :: "nat \<Rightarrow> string \<Rightarrow> bool" where
  "digits_of_width w s \<longleftrightarrow> length s = w \<and> list_all is_digit s"

text \<open>A value in the form \<open>yyyy.mm.dd\<close>: four year digits, two digits for a month or a day.\<close>

definition canonical_shape :: "FuzzyDate \<Rightarrow> bool" where
  "canonical_shape v \<longleftrightarrow>
     digits_of_width 4 (year v)
     \<and> (month v = [] \<or> digits_of_width 2 (month v))
     \<and> (day v = [] \<or> digits_of_width 2 (day v))"

section \<open>Printing and reading decimal numbers\<close>

lemma of_char_digit_char: "n < 10 \<Longrightarrow> (of_char (digit_char n) :: nat) = 48 + n"
  by (simp add: digit_char_def)

lemma is_digit_digit_char: "n < 10 \<Longrightarrow> is_digit (digit_char n)"
  by (simp add: is_digit_def of_char_digit_char)

lemma digit_val_digit_char: "n < 10 \<Longrightarrow> digit_val (digit_char n) = int n"
  by (simp add: digit_val_def of_char_digit_char)

lemma digit_not_space: "is_digit c \<Longrightarrow> \<not> py_isspace c"
  by (auto simp: is_digit_def py_isspace_def)

lemma digit_not_sign: "is_digit c \<Longrightarrow> c \<noteq> CHR ''+'' \<and> c \<noteq> CHR ''-'' \<and> c \<noteq> CHR ''_''"
  by (auto simp: is_digit_def)

lemma int_digits_all_digits:
  "list_all is_digit s \<Longrightarrow> int_digits acc s = Some (dec_val acc s)"
  by (induction s arbitrary: acc) (simp_all add: dec_val_def)

lemma py_strip_digits:
  assumes "s \<noteq> []" "list_all is_digit s"
  shows "py_strip s = s"
proof -
  from assms obtain c cs where s: "s = c # cs" by (cases s) auto
  with assms have "\<not> py_isspace c" by (simp add: digit_not_space)
  hence front: "dropWhile py_isspace s = s" by (simp add: s)
  from assms have "is_digit (last s)" by (metis last_in_set list_all_iff)
  hence "\<not> py_isspace (last s)" by (rule digit_not_space)
  hence "dropWhile py_isspace (rev s) = rev s"
    using assms(1) by (cases "rev s") (auto simp: last_rev hd_rev dest!: arg_cong[where f=hd])
  with front show ?thesis by (simp add: py_strip_def)
qed

lemma int_of_str_digits:
  assumes "s \<noteq> []" "list_all is_digit s"
  shows "int_of_str s = Some (dec_val 0 s)"
proof -
  from assms obtain c cs where s: "s = c # cs" by (cases s) auto
  with assms have c: "is_digit c" and cs: "list_all is_digit cs" by simp_all
  have "int_body (c # cs) = Some (dec_val 0 (c # cs))"
    using c cs by (simp add: int_body_def int_digits_all_digits dec_val_def)
  thus ?thesis using py_strip_digits[OF assms] digit_not_sign[OF c] by (simp add: int_of_str_def s)
qed

lemma str_of_nat_digits: "list_all is_digit (str_of_nat n) \<and> str_of_nat n \<noteq> []"
proof (induction n rule: str_of_nat.induct)
  case (1 n)
  show ?case
  proof (cases "n < 10")
    case True
    then show ?thesis by (subst (1 2) str_of_nat.simps) (simp add: is_digit_digit_char)
  next
    case False
    with 1 show ?thesis by (subst (1 2) str_of_nat.simps) (simp add: is_digit_digit_char)
  qed
qed

lemma dec_val_str_of_nat: "dec_val 0 (str_of_nat n) = int n"
proof (induction n rule: str_of_nat.induct)
  case (1 n)
  show ?case
  proof (cases "n < 10")
    case True
    then show ?thesis by (subst str_of_nat.simps) (simp add: dec_val_def digit_val_digit_char)
  next
    case False
    with 1 have "dec_val 0 (str_of_nat (n div 10)) = int (n div 10)" by simp
    with False show ?thesis
      by (subst str_of_nat.simps) (simp add: dec_val_def digit_val_digit_char zdiv_int zmod_int)
  qed
qed

lemma int_of_str_str_of_nat: "int_of_str (str_of_nat n) = Some (int n)"
  using str_of_nat_digits[of n] by (simp add: int_of_str_digits dec_val_str_of_nat)

lemma length_str_of_nat_ge2: "10 \<le> n \<Longrightarrow> 2 \<le> length (str_of_nat n)"
  using str_of_nat_digits[of "n div 10"]
  by (subst str_of_nat.simps) (cases "str_of_nat (n div 10)"; simp)

lemma int_of_str_single: "int_of_str [c] = Some n \<Longrightarrow> is_digit c \<and> n = digit_val c"
  by (auto simp: int_of_str_def py_strip_def int_body_def split: if_splits)

lemma int_of_str_zero_digit: "is_digit c \<Longrightarrow> int_of_str [CHR ''0'', c] = Some (digit_val c)"
  by (subst int_of_str_digits) (simp_all add: dec_val_def is_digit_def digit_val_def)

lemma int_of_str_00: "int_of_str ''00'' = Some 0"
  by (subst int_of_str_digits) (simp_all add: dec_val_def is_digit_def digit_val_def)

lemma int_of_str_01: "int_of_str ''01'' = Some 1"
  by (subst int_of_str_digits) (simp_all add: dec_val_def is_digit_def digit_val_def)

lemma int_of_str_12: "int_of_str ''12'' = Some 12"
  by (subst int_of_str_digits) (simp_all add: dec_val_def is_digit_def digit_val_def)

lemma int_of_str_nonempty: "int_of_str s = Some n \<Longrightarrow> s \<noteq> []"
  by (auto simp: int_of_str_def py_strip_def)

section \<open>The attributes of a constructed value\<close>

lemma pad2_long: "2 \<le> length s \<Longrightarrow> pad2 s = s"
  by (simp add: pad2_def)

lemma pad2_single: "pad2 [c] = [CHR ''0'', c]"
  by (simp add: pad2_def)

lemma length_pad2: "2 \<le> length (pad2 s)"
  by (simp add: pad2_def)

text \<open>A string component that reads as a positive integer still does after padding.\<close>

lemma pad2_str_component:
  assumes "int_of_str s = Some n" "1 \<le> n"
  shows "int_of_str (pad2 s) = Some n \<and> pad2 s \<noteq> ''00''"
proof (cases "2 \<le> length s")
  case True
  with assms show ?thesis using int_of_str_00 by (auto simp: pad2_long)
next
  case False
  with int_of_str_nonempty[OF assms(1)] have "length s = 1"
    by (cases s) (auto simp: Suc_le_eq)
  then obtain c where s: "s = [c]"
    by (auto simp: length_Suc_conv)
  with assms(1) have c: "is_digit c" "n = digit_val c" using int_of_str_single by auto
  with assms(2) show ?thesis
    using int_of_str_00 by (auto simp: s pad2_single int_of_str_zero_digit)
qed

lemma pad2_int_component:
  assumes "1 \<le> i"
  shows "int_of_str (pad2 (str_of_int i)) = Some i \<and> pad2 (str_of_int i) \<noteq> ''00''"
proof -
  from assms have "int_of_str (str_of_int i) = Some i"
    by (simp add: str_of_int_def int_of_str_str_of_nat)
  from pad2_str_component[OF this assms] show ?thesis .
qed

text \<open>
  The month or day keyword handed to \<open>__init__\<close>, and the attribute it becomes, when
  the component passed the calendar check.
\<close>

lemma component_attr:
  assumes "component_int (py_or f fuzzy_value) = Inr n" and "1 \<le> n"
  defines "k \<equiv> fmt_pad2 (py_or f fuzzy_value)"
  defines "a \<equiv> (if k \<noteq> ''00'' then k else '''')"
  shows "comp_or 1 a = Some n \<and> a \<noteq> ''00'' \<and> (a = [] \<or> 2 \<le> length a) \<and> str_or a ''00'' = k
     \<and> (a = [] \<longleftrightarrow> py_or f fuzzy_value = fuzzy_value)
     \<and> (a \<noteq> [] \<longrightarrow> int_of_str a = Some n \<and> py_int (py_or f fuzzy_value) = Inr n)"
proof (cases "py_or f fuzzy_value = fuzzy_value")
  case True
  with assms show ?thesis
    by (simp add: component_int_def fuzzy_value_def fmt_pad2_def pad2_def comp_or_def str_or_def)
next
  case False
  show ?thesis
  proof (cases "py_or f fuzzy_value")
    case (PStr s)
    with False assms(1) have "int_of_str s = Some n"
      by (simp add: component_int_def split: option.splits)
    from pad2_str_component[OF this assms(2)] show ?thesis
      using False PStr length_pad2[of s] \<open>int_of_str s = Some n\<close>
      by (auto simp: k_def a_def fmt_pad2_def comp_or_def str_or_def fuzzy_value_def)
  next
    case (PInt i)
    with False assms(1) have "i = n" by (simp add: component_int_def)
    with pad2_int_component[OF assms(2)] show ?thesis
      using PInt length_pad2[of "str_of_int n"]
      by (auto simp: k_def a_def fmt_pad2_def comp_or_def str_or_def fuzzy_value_def)
  qed
qed

lemma py_date_Inr: "py_date y m d = Inr dt \<Longrightarrow>
   dt = Date y m d \<and> 1 \<le> y \<and> y \<le> 9999 \<and> 1 \<le> m \<and> m \<le> 12 \<and> 1 \<le> d \<and> d \<le> days_in_month y m"
  by (auto simp: py_date_def split: if_splits)

lemma year_attr:
  assumes "py_int yv = Inr n" "0 \<le> n"
  shows "int_of_str (fmt_plain yv) = Some n"
  using assms by (cases yv) (auto simp: str_of_int_def int_of_str_str_of_nat split: option.splits)

text \<open>Everything a successful run of lines 57 to 85 tells about its result.\<close>

lemma check_and_build_Inr:
  assumes "check_and_build yr mo dy = Inr v"
  shows "\<exists>yv Y M D. yr = Some yv \<and> val_truthy yv \<and> py_int yv = Inr Y
      \<and> component_int (py_or mo fuzzy_value) = Inr M
      \<and> component_int (py_or dy fuzzy_value) = Inr D
      \<and> 1000 \<le> Y \<and> Y \<le> 9999 \<and> py_date Y M D = Inr (Date Y M D)
      \<and> v = FuzzyDate_new (fmt_plain yv) (fmt_pad2 (py_or mo fuzzy_value))
              (fmt_pad2 (py_or dy fuzzy_value))"
proof -
  from assms obtain yv where yr: "yr = Some yv" and yt: "val_truthy yv"
    by (auto simp: check_and_build_def split: option.splits if_splits)
  let ?mv = "py_or mo fuzzy_value" and ?dv = "py_or dy fuzzy_value"
  from assms yr yt obtain Y M D dt where
    Y: "py_int yv = Inr Y" and
    M: "component_int ?mv = Inr M" and
    D: "component_int ?dv = Inr D" and
    rng: "1000 \<le> Y" "Y \<le> 9999" and
    dt: "py_date Y M D = Inr dt" and
    v: "v = FuzzyDate_new (fmt_plain yv) (fmt_pad2 ?mv) (fmt_pad2 ?dv)"
    unfolding check_and_build_def Let_def
    by (simp split: if_splits sum.splits)
  from py_date_Inr[OF dt] have "dt = Date Y M D" by simp
  with yr yt Y M D rng dt v show ?thesis by blast
qed

lemma check_and_build_valid:
  assumes "check_and_build yr mo dy = Inr v"
  shows "valid_value v"
proof -
  let ?mv = "py_or mo fuzzy_value" and ?dv = "py_or dy fuzzy_value"
  from check_and_build_Inr[OF assms] obtain yv Y M D where
    Y: "py_int yv = Inr Y" and
    M: "component_int ?mv = Inr M" and
    D: "component_int ?dv = Inr D" and
    rng: "1000 \<le> Y" "Y \<le> 9999" and
    dt: "py_date Y M D = Inr (Date Y M D)" and
    v: "v = FuzzyDate_new (fmt_plain yv) (fmt_pad2 ?mv) (fmt_pad2 ?dv)"
    by blast
  from py_date_Inr[OF dt] have M1: "1 \<le> M" and D1: "1 \<le> D" by auto
  from year_attr[OF Y] rng have y: "int_of_str (fmt_plain yv) = Some Y" by simp
  define ma where "ma = (if fmt_pad2 ?mv \<noteq> ''00'' then fmt_pad2 ?mv else [])"
  define da where "da = (if fmt_pad2 ?dv \<noteq> ''00'' then fmt_pad2 ?dv else [])"
  have cm: "comp_or 1 ma = Some M \<and> ma \<noteq> ''00'' \<and> (ma = [] \<or> 2 \<le> length ma)
      \<and> str_or ma ''00'' = fmt_pad2 ?mv"
    using component_attr[OF M M1] unfolding ma_def by blast
  have cd: "comp_or 1 da = Some D \<and> da \<noteq> ''00'' \<and> (da = [] \<or> 2 \<le> length da)
      \<and> str_or da ''00'' = fmt_pad2 ?dv"
    using component_attr[OF D D1] unfolding da_def by blast
  have flds: "year v = fmt_plain yv" "month v = ma" "day v = da"
    "canonical v = fmt_plain yv @ ''.'' @ fmt_pad2 ?mv @ ''.'' @ fmt_pad2 ?dv"
    by (simp_all add: v FuzzyDate_new_def ma_def da_def)
  have "int_of_str (year v) = Some Y \<and> 1000 \<le> Y \<and> Y \<le> 9999
        \<and> comp_or 1 (month v) = Some M \<and> comp_or 1 (day v) = Some D
        \<and> py_date Y M D = Inr (Date Y M D)
        \<and> month v \<noteq> ''00'' \<and> day v \<noteq> ''00''
        \<and> (month v = [] \<or> 2 \<le> length (month v))
        \<and> (day v = [] \<or> 2 \<le> length (day v))
        \<and> canonical v = year v @ ''.'' @ str_or (month v) ''00'' @ ''.'' @ str_or (day v) ''00''"
    unfolding flds using y rng cm cd dt by simp
  thus ?thesis
    unfolding valid_value_def by blast
qed

lemma CustomMeta_call_valid:
  assumes "CustomMeta_call sd y m d = Inr v"
  shows "valid_value v"
  using assms check_and_build_valid
  by (auto simp: CustomMeta_call_def split: sum.splits)

section \<open>Resolving a value to its first and last day\<close>

lemma FuzzyDate_kw_ok:
  assumes "int_of_str ys = Some Y" "1000 \<le> Y" "Y \<le> 9999"
    and "int_of_str ms = Some M" "int_of_str ds = Some D"
    and "py_date Y M D = Inr (Date Y M D)"
    and "ms \<noteq> ''00''" "ds \<noteq> ''00''" "2 \<le> length ms" "2 \<le> length ds"
  shows "FuzzyDate_kw ys ms ds = Inr (FuzzyDate_new ys ms ds)"
proof -
  from assms have ne: "ys \<noteq> []" "ms \<noteq> []" "ds \<noteq> []"
    by (auto dest: int_of_str_nonempty)
  with assms show ?thesis
    by (simp add: FuzzyDate_kw_def CustomMeta_call_def read_arguments_def check_and_build_def
        component_int_def py_or_def fuzzy_value_def fmt_pad2_def pad2_long)
qed

lemma days_in_month_bounds: "28 \<le> days_in_month y m \<and> days_in_month y m \<le> 31"
  by (simp add: days_in_month_def)

lemma last_day_str:
  assumes "n = days_in_month y m"
  shows "int_of_str (str_of_int n) = Some n \<and> 2 \<le> length (str_of_int n) \<and> str_of_int n \<noteq> ''00''"
proof -
  from assms days_in_month_bounds[of y m] have b: "28 \<le> n" "n \<le> 31" by auto
  hence 1: "int_of_str (str_of_int n) = Some n"
    by (simp add: str_of_int_def int_of_str_str_of_nat)
  from b have 2: "2 \<le> length (str_of_int n)"
    by (simp add: str_of_int_def length_str_of_nat_ge2)
  from 1 b int_of_str_00 have 3: "str_of_int n \<noteq> ''00''" by auto
  from 1 2 3 show ?thesis by simp
qed

lemma get_start_valid:
  assumes "valid_value v"
  shows "\<exists>Y M D. int_of_str (year v) = Some Y \<and> comp_or 1 (month v) = Some M
      \<and> comp_or 1 (day v) = Some D \<and> py_date Y M D = Inr (Date Y M D)
      \<and> int_of_str (str_or (month v) ''01'') = Some M
      \<and> int_of_str (str_or (day v) ''01'') = Some D
      \<and> str_or (month v) ''01'' \<noteq> ''00'' \<and> str_or (day v) ''01'' \<noteq> ''00''
      \<and> get_start v =
          Inr (FuzzyDate_new (year v) (str_or (month v) ''01'') (str_or (day v) ''01''))"
proof -
  from assms obtain Y M D where
    Y: "int_of_str (year v) = Some Y" "1000 \<le> Y" "Y \<le> 9999" and
    M: "comp_or 1 (month v) = Some M" and D: "comp_or 1 (day v) = Some D" and
    dt: "py_date Y M D = Inr (Date Y M D)" and
    ne: "month v \<noteq> ''00''" "day v \<noteq> ''00''" and
    len: "month v = [] \<or> 2 \<le> length (month v)" "day v = [] \<or> 2 \<le> length (day v)"
    unfolding valid_value_def by blast
  let ?ms = "str_or (month v) ''01''" and ?ds = "str_or (day v) ''01''"
  from M have m: "int_of_str ?ms = Some M"
    by (auto simp: comp_or_def str_or_def int_of_str_01 split: if_splits)
  from D have d: "int_of_str ?ds = Some D"
    by (auto simp: comp_or_def str_or_def int_of_str_01 split: if_splits)
  from ne len have s: "?ms \<noteq> ''00''" "?ds \<noteq> ''00''" "2 \<le> length ?ms" "2 \<le> length ?ds"
    by (auto simp: str_or_def)
  from FuzzyDate_kw_ok[OF Y m d dt s]
  have "get_start v = Inr (FuzzyDate_new (year v) ?ms ?ds)"
    by (simp add: get_start_def)
  with Y(1) M D dt m d s(1,2) show ?thesis by blast
qed

lemma get_end_valid:
  assumes "valid_value v"
  shows "\<exists>Y M D. int_of_str (year v) = Some Y \<and> comp_or 12 (month v) = Some M
      \<and> int_of_str (str_or (month v) ''12'') = Some M
      \<and> D = (if day v \<noteq> [] then the (int_of_str (day v)) else days_in_month Y M)
      \<and> int_of_str (if day v \<noteq> [] then day v else str_of_int (days_in_month Y M)) = Some D
      \<and> py_date Y M D = Inr (Date Y M D)
      \<and> str_or (month v) ''12'' \<noteq> ''00''
      \<and> (if day v \<noteq> [] then day v else str_of_int (days_in_month Y M)) \<noteq> ''00''
      \<and> (if day v \<noteq> [] then day v else str_of_int (days_in_month Y M)) \<noteq> []
      \<and> get_end v = Inr (FuzzyDate_new (year v) (str_or (month v) ''12'')
           (if day v \<noteq> [] then day v else str_of_int (days_in_month Y M)))"
proof -
  from assms obtain Y M D where
    Y: "int_of_str (year v) = Some Y" "1000 \<le> Y" "Y \<le> 9999" and
    M: "comp_or 1 (month v) = Some M" and D: "comp_or 1 (day v) = Some D" and
    dt: "py_date Y M D = Inr (Date Y M D)" and
    ne: "month v \<noteq> ''00''" "day v \<noteq> ''00''" and
    len: "month v = [] \<or> 2 \<le> length (month v)" "day v = [] \<or> 2 \<le> length (day v)"
    unfolding valid_value_def by blast
  let ?ms = "str_or (month v) ''12''"
  define M' where "M' = (if month v = [] then 12 else M)"
  from M have m: "int_of_str ?ms = Some M'"
    by (auto simp: M'_def comp_or_def str_or_def int_of_str_12 split: if_splits)
  from M have m12: "comp_or 12 (month v) = Some M'"
    by (auto simp: M'_def comp_or_def split: if_splits)
  from ne len have s: "?ms \<noteq> ''00''" "2 \<le> length ?ms"
    by (auto simp: str_or_def)
  from py_date_Inr[OF dt] have bM: "1 \<le> M" "M \<le> 12" and bD: "1 \<le> D" "D \<le> days_in_month Y M"
    by auto
  from M have M1: "month v = [] \<Longrightarrow> M = 1" by (simp add: comp_or_def)
  have bM': "1 \<le> M'" "M' \<le> 12" using bM by (auto simp: M'_def)
  let ?ds = "if day v \<noteq> [] then day v else str_of_int (days_in_month Y M')"
  define D' where "D' = (if day v \<noteq> [] then the (int_of_str (day v)) else days_in_month Y M')"
  have "int_of_str ?ds = Some D' \<and> py_date Y M' D' = Inr (Date Y M' D') \<and> ?ds \<noteq> ''00''
      \<and> ?ds \<noteq> [] \<and> get_end v = Inr (FuzzyDate_new (year v) ?ms ?ds)"
  proof (cases "day v = []")
    case True
    define n where "n = days_in_month Y M'"
    from last_day_str[OF n_def] have
      n: "int_of_str (str_of_int n) = Some n" "str_of_int n \<noteq> ''00''" "2 \<le> length (str_of_int n)"
      by auto
    from days_in_month_bounds[of Y M'] bM' Y have pd: "py_date Y M' n = Inr (Date Y M' n)"
      by (simp add: py_date_def c_int_def n_def)
    from n(3) have "str_of_int n \<noteq> []" by auto
    with FuzzyDate_kw_ok[OF Y m n(1) pd s(1) n(2) s(2) n(3)] True Y m bM' n pd show ?thesis
      by (simp add: get_end_def monthrange_days_def n_def D'_def)
  next
    case False
    with D have d: "int_of_str (day v) = Some D" by (simp add: comp_or_def)
    from False len ne have sd: "day v \<noteq> ''00''" "2 \<le> length (day v)" by auto
    have "D \<le> days_in_month Y M'"
      using bD M1 by (auto simp: M'_def days_in_month_def split: if_splits)
    with bD bM' Y days_in_month_bounds[of Y M'] have pd: "py_date Y M' D = Inr (Date Y M' D)"
      by (simp add: py_date_def c_int_def)
    from FuzzyDate_kw_ok[OF Y m d pd s(1) sd(1) s(2) sd(2)] False d pd sd show ?thesis
      by (simp add: get_end_def D'_def)
  qed
  with Y(1) m m12 s(1) D'_def show ?thesis by blast
qed

section \<open>The stored form for plain arguments\<close>

lemma dec_val_acc: "dec_val acc s = acc * 10 ^ length s + dec_val 0 s"
proof (induction s arbitrary: acc)
  case Nil
  show ?case by (simp add: dec_val_def)
next
  case (Cons c cs)
  have "dec_val acc (c # cs) = dec_val (10 * acc + digit_val c) cs"
    by (simp add: dec_val_def)
  also have "\<dots> = (10 * acc + digit_val c) * 10 ^ length cs + dec_val 0 cs"
    by (rule Cons.IH)
  also have "dec_val 0 (c # cs) = dec_val (digit_val c) cs"
    by (simp add: dec_val_def)
  hence "(10 * acc + digit_val c) * 10 ^ length cs + dec_val 0 cs
      = acc * 10 ^ length (c # cs) + dec_val 0 (c # cs)"
    using Cons.IH[of "digit_val c"] by (simp add: algebra_simps)
  finally show ?case .
qed

lemma digit_val_bounds: "is_digit c \<Longrightarrow> 0 \<le> digit_val c \<and> digit_val c \<le> 9"
  by (auto simp: is_digit_def digit_val_def)

lemma dec_val_Cons: "dec_val 0 (c # cs) = digit_val c * 10 ^ length cs + dec_val 0 cs"
  using dec_val_acc[of "digit_val c" cs] by (simp add: dec_val_def)

lemma dec_val_bounds:
  "list_all is_digit s \<Longrightarrow> 0 \<le> dec_val 0 s \<and> dec_val 0 s < 10 ^ length s"
proof (induction s)
  case Nil
  show ?case by (simp add: dec_val_def)
next
  case (Cons c cs)
  hence c: "0 \<le> digit_val c" "digit_val c \<le> 9" and
    ih: "0 \<le> dec_val 0 cs" "dec_val 0 cs < 10 ^ length cs"
    using digit_val_bounds by auto
  define P where "P = (10::int) ^ length cs"
  have P: "0 < P" by (simp add: P_def)
  have up: "digit_val c * P \<le> 9 * P"
    using c(2) P by (intro mult_right_mono) simp_all
  have lo: "0 \<le> digit_val c * P"
    using c(1) P by simp
  have "dec_val 0 (c # cs) = digit_val c * P + dec_val 0 cs"
    by (simp add: dec_val_Cons P_def)
  moreover have "(10::int) ^ length (c # cs) = 10 * P"
    by (simp add: P_def)
  ultimately show ?case
    using up lo ih unfolding P_def[symmetric] by linarith
qed

lemma plain_year_width:
  assumes "list_all is_digit s" "length s \<le> 4" "int_of_str s = Some Y" "1000 \<le> Y"
  shows "length s = 4"
proof (rule ccontr)
  assume "length s \<noteq> 4"
  with assms(2) have l: "length s \<le> 3" by simp
  from assms(3) have ne: "s \<noteq> []" by (rule int_of_str_nonempty)
  from int_of_str_digits[OF ne assms(1)] assms(3) have Y: "Y = dec_val 0 s" by simp
  from dec_val_bounds[OF assms(1)] have "dec_val 0 s < 10 ^ length s" by simp
  also have "(10::int) ^ length s \<le> 10 ^ 3"
    using l by (intro power_increasing) simp_all
  finally show False using Y assms(4) by simp
qed

lemma length_str_of_nat_4:
  assumes "1000 \<le> n" "n \<le> 9999"
  shows "length (str_of_nat n) = 4"
proof -
  from assms have a: "\<not> n < 10" "\<not> n div 10 < 10" "\<not> n div 10 div 10 < 10"
    "n div 10 div 10 div 10 < 10" by arith+
  show ?thesis
    using a
    by (subst str_of_nat.simps, simp, subst str_of_nat.simps, simp, subst str_of_nat.simps, simp,
        subst str_of_nat.simps, simp)
qed

lemma str_of_nat_single: "n < 10 \<Longrightarrow> str_of_nat n = [digit_char n]"
  by (subst str_of_nat.simps) simp

lemma length_str_of_nat_le2:
  assumes "n < 100"
  shows "length (str_of_nat n) \<le> 2"
proof (cases "n < 10")
  case True
  then show ?thesis by (simp add: str_of_nat_single)
next
  case False
  from assms have "n div 10 < 10" by simp
  with False show ?thesis
    by (subst str_of_nat.simps) (simp add: str_of_nat_single)
qed

lemma digits_pad2:
  assumes "list_all is_digit s" "length s \<le> 2"
  shows "digits_of_width 2 (pad2 s)"
proof -
  have "is_digit (CHR ''0'')" by (simp add: is_digit_def)
  with assms show ?thesis
    by (auto simp: digits_of_width_def pad2_def list_all_iff)
qed

text \<open>The year keyword of a plain, accepted input is stored as four digits.\<close>

lemma plain_year_stored:
  assumes "plain_field 4 (Some yv)" "py_int yv = Inr Y" "1000 \<le> Y" "Y \<le> 9999"
  shows "digits_of_width 4 (fmt_plain yv)"
proof (cases yv)
  case (PStr s)
  with assms have "list_all is_digit s" "length s \<le> 4" "int_of_str s = Some Y"
    by (auto split: option.splits)
  from plain_year_width[OF this assms(3)] this(1) PStr show ?thesis
    by (simp add: digits_of_width_def)
next
  case (PInt i)
  with assms have "1000 \<le> nat i" "nat i \<le> 9999" "0 \<le> i" by auto
  with length_str_of_nat_4[of "nat i"] str_of_nat_digits[of "nat i"] PInt show ?thesis
    by (simp add: digits_of_width_def str_of_int_def)
qed

text \<open>The month or day keyword of a plain, accepted input is stored as two digits.\<close>

lemma plain_component_stored:
  assumes "plain_field 2 f" "component_int (py_or f fuzzy_value) = Inr n" "1 \<le> n" "n \<le> 31"
  shows "digits_of_width 2 (fmt_pad2 (py_or f fuzzy_value))"
proof (cases "py_or f fuzzy_value = fuzzy_value")
  case True
  then show ?thesis
    by (simp add: fuzzy_value_def fmt_pad2_def pad2_def digits_of_width_def is_digit_def)
next
  case False
  then obtain fv where f: "f = Some fv" "py_or f fuzzy_value = fv"
    by (cases f) (auto simp: py_or_def split: if_splits)
  show ?thesis
  proof (cases fv)
    case (PStr s)
    with assms(1) f have "list_all is_digit s" "length s \<le> 2" by simp_all
    from digits_pad2[OF this] f PStr show ?thesis by (simp add: fmt_pad2_def)
  next
    case (PInt i)
    with assms f False have i: "1 \<le> i" "i \<le> 31" by (auto simp: component_int_def)
    hence "nat i < 100" by simp
    from length_str_of_nat_le2[OF this] str_of_nat_digits[of "nat i"] i
    have "list_all is_digit (str_of_int i)" "length (str_of_int i) \<le> 2"
      by (simp_all add: str_of_int_def)
    from digits_pad2[OF this] f PInt show ?thesis by (simp add: fmt_pad2_def)
  qed
qed

lemma sep_two_digits_Some:
  "sep_two_digits r = Some (g, r') \<Longrightarrow> digits_of_width 2 g"
  by (cases r rule: sep_two_digits.cases) (auto simp: digits_of_width_def split: if_splits)

text \<open>The groups of a match are digit strings of width four and two.\<close>

lemma DATE_PATTERN_match_groups:
  assumes "DATE_PATTERN_match s = Some (yr, mo, dy)"
  shows "plain_field 4 (Some (PStr yr)) \<and> plain_field 2 (map_option PStr mo)
     \<and> plain_field 2 (map_option PStr dy)"
proof -
  from assms have y: "yr = take 4 s" "length (take 4 s) = 4" "list_all is_digit (take 4 s)"
    by (auto simp: DATE_PATTERN_match_def Let_def split: if_splits option.splits)
  have m: "plain_field 2 (map_option PStr mo)"
  proof (cases mo)
    case (Some g)
    with assms obtain r' where "sep_two_digits (drop 4 s) = Some (g, r')"
      by (auto simp: DATE_PATTERN_match_def Let_def split: if_splits option.splits)
    from sep_two_digits_Some[OF this] Some show ?thesis by (simp add: digits_of_width_def)
  qed simp
  have d: "plain_field 2 (map_option PStr dy)"
  proof (cases dy)
    case (Some g)
    with assms obtain g0 r2 r' where "sep_two_digits (drop 4 s) = Some (g0, r2)"
      "sep_two_digits r2 = Some (g, r')"
      by (auto simp: DATE_PATTERN_match_def Let_def split: if_splits option.splits)
    from sep_two_digits_Some[OF this(2)] Some show ?thesis by (simp add: digits_of_width_def)
  qed simp
  from y m d show ?thesis by simp
qed

lemma read_arguments_plain:
  assumes "read_arguments sd y m d = Inr (yr, mo, dy)" "plain_input sd y m d"
  shows "plain_field 4 yr \<and> plain_field 2 mo \<and> plain_field 2 dy"
proof (cases "seed_truthy sd")
  case False
  with assms show ?thesis by (simp add: read_arguments_def plain_input_def)
next
  case True
  then obtain sv where sd: "sd = Some sv" by (cases sd) auto
  show ?thesis
  proof (cases sv)
    case (SeedStr s)
    with assms(1) True sd obtain g1 g2 g3 where
      "DATE_PATTERN_match s = Some (g1, g2, g3)" "yr = Some (PStr g1)"
      "mo = map_option PStr g2" "dy = map_option PStr g3"
      by (auto simp: read_arguments_def split: option.splits)
    with DATE_PATTERN_match_groups[OF this(1)] show ?thesis by simp
  next
    case (SeedDate dt)
    with assms(1) True sd show ?thesis
      by (cases dt) (auto simp: read_arguments_def)
  next
    case (SeedOther b)
    with assms(1) True sd show ?thesis by (simp add: read_arguments_def)
  qed
qed

text \<open>
  For plain arguments the stored string is the fixed form: four digits, two digits,
  two digits, with \<open>00\<close> for an absent component; ten characters.
\<close>

lemma plain_input_canonical_shape:
  assumes "CustomMeta_call sd y m d = Inr v" "plain_input sd y m d"
  shows "canonical_shape v \<and> length (canonical v) = 10
     \<and> (\<exists>ms ds. digits_of_width 2 ms \<and> digits_of_width 2 ds
          \<and> canonical v = year v @ ''.'' @ ms @ ''.'' @ ds)"
proof -
  from assms(1) obtain yr mo dy where
    ra: "read_arguments sd y m d = Inr (yr, mo, dy)" and cb: "check_and_build yr mo dy = Inr v"
    by (auto simp: CustomMeta_call_def split: sum.splits)
  from read_arguments_plain[OF ra assms(2)] have
    pl: "plain_field 4 yr" "plain_field 2 mo" "plain_field 2 dy" by auto
  let ?mv = "py_or mo fuzzy_value" and ?dv = "py_or dy fuzzy_value"
  from check_and_build_Inr[OF cb] obtain yv Y M D where
    yr: "yr = Some yv" and Y: "py_int yv = Inr Y" and
    M: "component_int ?mv = Inr M" and D: "component_int ?dv = Inr D" and
    rng: "1000 \<le> Y" "Y \<le> 9999" and dt: "py_date Y M D = Inr (Date Y M D)" and
    v: "v = FuzzyDate_new (fmt_plain yv) (fmt_pad2 ?mv) (fmt_pad2 ?dv)"
    by blast
  from py_date_Inr[OF dt] days_in_month_bounds[of Y M]
  have b: "1 \<le> M" "M \<le> 31" "1 \<le> D" "D \<le> 31" by auto
  from plain_year_stored[OF pl(1)[unfolded yr] Y rng] have ys: "digits_of_width 4 (fmt_plain yv)" .
  from plain_component_stored[OF pl(2) M b(1,2)] have ms: "digits_of_width 2 (fmt_pad2 ?mv)" .
  from plain_component_stored[OF pl(3) D b(3,4)] have ds: "digits_of_width 2 (fmt_pad2 ?dv)" .
  have shape: "canonical_shape v"
    using ys ms ds by (simp add: canonical_shape_def v FuzzyDate_new_def)
  have c: "canonical v = year v @ ''.'' @ fmt_pad2 ?mv @ ''.'' @ fmt_pad2 ?dv"
    by (simp add: v FuzzyDate_new_def)
  have "length (canonical v) = 10"
    using ys ms ds by (simp add: v FuzzyDate_new_def digits_of_width_def)
  with shape c ms ds show ?thesis by blast
qed

section \<open>Round trip and order for values in the fixed form\<close>

lemma width4E:
  assumes "digits_of_width 4 s"
  obtains a b c d where "s = [a, b, c, d]" "is_digit a" "is_digit b" "is_digit c" "is_digit d"
proof -
  from assms have "length s = 4" by (simp add: digits_of_width_def)
  then obtain a b c d where "s = [a, b, c, d]"
    by (auto simp: length_Suc_conv numeral_eq_Suc)
  with assms that show thesis by (simp add: digits_of_width_def)
qed

lemma width2E:
  assumes "digits_of_width 2 s"
  obtains a b where "s = [a, b]" "is_digit a" "is_digit b"
proof -
  from assms have "length s = 2" by (simp add: digits_of_width_def)
  then obtain a b where "s = [a, b]"
    by (auto simp: length_Suc_conv numeral_eq_Suc)
  with assms that show thesis by (simp add: digits_of_width_def)
qed

lemma DATE_PATTERN_match_canonical:
  assumes "digits_of_width 4 ys" "digits_of_width 2 ms" "digits_of_width 2 ds"
  shows "DATE_PATTERN_match (ys @ ''.'' @ ms @ ''.'' @ ds) = Some (ys, Some ms, Some ds)"
proof -
  from assms(1) obtain a b c d where
    ys: "ys = [a, b, c, d]" "is_digit a" "is_digit b" "is_digit c" "is_digit d"
    by (rule width4E)
  from assms(2) obtain e f where ms: "ms = [e, f]" "is_digit e" "is_digit f"
    by (rule width2E)
  from assms(3) obtain g h where ds: "ds = [g, h]" "is_digit g" "is_digit h"
    by (rule width2E)
  from ys ms ds show ?thesis
    by (simp add: DATE_PATTERN_match_def is_sep_def at_dollar_def)
qed

text \<open>
  Constructing from the stored string of a valid value in the fixed form gives the
  value back.
\<close>

lemma shaped_value_round_trip:
  assumes "valid_value v" "canonical_shape v"
  shows "CustomMeta_call (Some (SeedStr (canonical v))) y m d = Inr v"
proof -
  from assms(1) obtain Y M D where
    Y: "int_of_str (year v) = Some Y" "1000 \<le> Y" "Y \<le> 9999" and
    M: "comp_or 1 (month v) = Some M" and D: "comp_or 1 (day v) = Some D" and
    dt: "py_date Y M D = Inr (Date Y M D)" and
    ne: "month v \<noteq> ''00''" "day v \<noteq> ''00''" and
    c: "canonical v = year v @ ''.'' @ str_or (month v) ''00'' @ ''.'' @ str_or (day v) ''00''"
    unfolding valid_value_def by blast
  let ?ms = "str_or (month v) ''00''" and ?ds = "str_or (day v) ''00''"
  have z: "digits_of_width 2 ''00''" by (simp add: digits_of_width_def is_digit_def)
  from assms(2) z have w: "digits_of_width 4 (year v)" "digits_of_width 2 ?ms"
    "digits_of_width 2 ?ds"
    by (auto simp: canonical_shape_def str_or_def)
  from DATE_PATTERN_match_canonical[OF w] c
  have ra: "read_arguments (Some (SeedStr (canonical v))) y m d
      = Inr (Some (PStr (year v)), Some (PStr ?ms), Some (PStr ?ds))"
    by (simp add: read_arguments_def)
  from w have len: "length (year v) = 4" "length ?ms = 2" "length ?ds = 2"
    by (simp_all add: digits_of_width_def)
  hence nonempty: "year v \<noteq> []" "?ms \<noteq> []" "?ds \<noteq> []" by auto
  have cm: "component_int (PStr ?ms) = Inr M"
    using M ne by (auto simp: component_int_def fuzzy_value_def str_or_def comp_or_def)
  have cd: "component_int (PStr ?ds) = Inr D"
    using D ne by (auto simp: component_int_def fuzzy_value_def str_or_def comp_or_def)
  have "check_and_build (Some (PStr (year v))) (Some (PStr ?ms)) (Some (PStr ?ds))
      = Inr (FuzzyDate_new (year v) ?ms ?ds)"
    using nonempty Y cm cd dt len
    by (simp add: check_and_build_def py_or_def fmt_pad2_def pad2_long)
  moreover have "FuzzyDate_new (year v) ?ms ?ds = v"
    using c ne by (cases v) (auto simp: FuzzyDate_new_def str_or_def)
  ultimately show ?thesis using ra by (simp add: CustomMeta_call_def)
qed

lemma plain_input_round_trip:
  assumes "CustomMeta_call sd y m d = Inr v" "plain_input sd y m d"
  shows "CustomMeta_call (Some (SeedStr (canonical v))) y' m' d' = Inr v"
  using shaped_value_round_trip CustomMeta_call_valid[OF assms(1)]
    plain_input_canonical_shape[OF assms] by blast

text \<open>Digit strings of one length compare as their values do.\<close>

lemma scaled_less:
  fixes a b x y P :: int
  assumes "a < b" "0 \<le> x" "x < P" "0 \<le> y"
  shows "a * P + x < b * P + y"
proof -
  from assms have "0 \<le> P" by simp
  with assms(1) have "(a + 1) * P \<le> b * P"
    by (intro mult_right_mono) simp_all
  hence "a * P + P \<le> b * P" by (simp add: algebra_simps)
  with assms show ?thesis by linarith
qed

lemma digit_val_less: "(of_char c :: nat) < of_char d \<longleftrightarrow> digit_val c < digit_val d"
  by (auto simp: digit_val_def)

lemma digit_val_eq: "c = d \<longleftrightarrow> digit_val c = digit_val d"
  by (auto simp: digit_val_def intro: of_char_eqI[where ?'a = nat])

lemma digits_compare:
  assumes "length s = length t" "list_all is_digit s" "list_all is_digit t"
  shows "(str_lt s t \<longleftrightarrow> dec_val 0 s < dec_val 0 t) \<and> (s = t \<longleftrightarrow> dec_val 0 s = dec_val 0 t)"
  using assms
proof (induction s t rule: list_induct2)
  case Nil
  show ?case by simp
next
  case (Cons c cs d ds)
  define P where "P = (10::int) ^ length cs"
  have P2: "(10::int) ^ length ds = P" using Cons.hyps by (simp add: P_def)
  from Cons.prems have dcs: "list_all is_digit cs" and dds: "list_all is_digit ds" by simp_all
  from dec_val_bounds[OF dcs] have x: "0 \<le> dec_val 0 cs" "dec_val 0 cs < P"
    by (simp_all add: P_def)
  from dec_val_bounds[OF dds] have y: "0 \<le> dec_val 0 ds" "dec_val 0 ds < P"
    by (simp_all add: P2)
  from Cons.IH[OF dcs dds] have
    ih: "str_lt cs ds \<longleftrightarrow> dec_val 0 cs < dec_val 0 ds" "cs = ds \<longleftrightarrow> dec_val 0 cs = dec_val 0 ds"
    by simp_all
  have vc: "dec_val 0 (c # cs) = digit_val c * P + dec_val 0 cs"
    by (simp add: dec_val_Cons P_def)
  have vd: "dec_val 0 (d # ds) = digit_val d * P + dec_val 0 ds"
    by (simp add: dec_val_Cons P2)
  consider (less) "digit_val c < digit_val d" | (eq) "digit_val c = digit_val d"
    | (greater) "digit_val d < digit_val c" by linarith
  then show ?case
  proof cases
    case less
    from scaled_less[OF less x y(1)] have "dec_val 0 (c # cs) < dec_val 0 (d # ds)"
      by (simp add: vc vd)
    with less show ?thesis by (auto simp: digit_val_less digit_val_eq)
  next
    case eq
    with ih show ?thesis by (simp add: vc vd digit_val_less digit_val_eq)
  next
    case greater
    from scaled_less[OF greater y x(1)] have "dec_val 0 (d # ds) < dec_val 0 (c # cs)"
      by (simp add: vc vd)
    with greater show ?thesis by (auto simp: digit_val_less digit_val_eq)
  qed
qed

lemma str_lt_append:
  "length a = length b \<Longrightarrow> str_lt (a @ r) (b @ s) \<longleftrightarrow> str_lt a b \<or> (a = b \<and> str_lt r s)"
  by (induction a b rule: list_induct2) auto

text \<open>
  For two valid values in the fixed form, the order of the stored strings is the order
  of the numeric triples.
\<close>

lemma shaped_values_order:
  assumes "valid_value a" "canonical_shape a" "valid_value b" "canonical_shape b"
  shows "\<exists>ta tb. numeric_triple a = Some ta \<and> numeric_triple b = Some tb
     \<and> (str_lt (canonical a) (canonical b) \<longleftrightarrow> triple_lt ta tb)"
proof -
  have z: "digits_of_width 2 ''00''" "dec_val 0 ''00'' = 0"
    by (simp_all add: digits_of_width_def is_digit_def dec_val_def digit_val_def)
  have parts: "\<exists>ms ds. digits_of_width 4 (year v) \<and> digits_of_width 2 ms \<and> digits_of_width 2 ds
      \<and> canonical v = year v @ ''.'' @ ms @ ''.'' @ ds
      \<and> numeric_triple v = Some (dec_val 0 (year v), dec_val 0 ms, dec_val 0 ds)"
    if v: "valid_value v" "canonical_shape v" for v
  proof -
    let ?ms = "str_or (month v) ''00''" and ?ds = "str_or (day v) ''00''"
    from v(1) have c: "canonical v = year v @ ''.'' @ ?ms @ ''.'' @ ?ds"
      unfolding valid_value_def by blast
    from v(2) z have w: "digits_of_width 4 (year v)" "digits_of_width 2 ?ms"
      "digits_of_width 2 ?ds"
      by (auto simp: canonical_shape_def str_or_def)
    have iy: "int_of_str (year v) = Some (dec_val 0 (year v))"
      using w(1) by (intro int_of_str_digits) (auto simp: digits_of_width_def)
    have im: "comp_or 0 (month v) = Some (dec_val 0 ?ms)"
    proof (cases "month v = []")
      case True
      then show ?thesis using z by (simp add: comp_or_def str_or_def)
    next
      case False
      with w(2) have "int_of_str (month v) = Some (dec_val 0 (month v))"
        by (intro int_of_str_digits) (auto simp: digits_of_width_def str_or_def)
      with False show ?thesis by (simp add: comp_or_def str_or_def)
    qed
    have idy: "comp_or 0 (day v) = Some (dec_val 0 ?ds)"
    proof (cases "day v = []")
      case True
      then show ?thesis using z by (simp add: comp_or_def str_or_def)
    next
      case False
      with w(3) have "int_of_str (day v) = Some (dec_val 0 (day v))"
        by (intro int_of_str_digits) (auto simp: digits_of_width_def str_or_def)
      with False show ?thesis by (simp add: comp_or_def str_or_def)
    qed
    from iy im idy have "numeric_triple v = Some (dec_val 0 (year v), dec_val 0 ?ms, dec_val 0 ?ds)"
      by (simp add: numeric_triple_def)
    with w c show ?thesis by blast
  qed
  from parts[OF assms(1,2)] obtain ma da where
    a: "digits_of_width 4 (year a)" "digits_of_width 2 ma" "digits_of_width 2 da"
       "canonical a = year a @ ''.'' @ ma @ ''.'' @ da"
       "numeric_triple a = Some (dec_val 0 (year a), dec_val 0 ma, dec_val 0 da)"
    by blast
  from parts[OF assms(3,4)] obtain mb db where
    b: "digits_of_width 4 (year b)" "digits_of_width 2 mb" "digits_of_width 2 db"
       "canonical b = year b @ ''.'' @ mb @ ''.'' @ db"
       "numeric_triple b = Some (dec_val 0 (year b), dec_val 0 mb, dec_val 0 db)"
    by blast
  from a(1) b(1) have ly: "length (year a) = length (year b)"
    by (simp add: digits_of_width_def)
  from a(2) b(2) have lm: "length ma = length mb" by (simp add: digits_of_width_def)
  from a(3) b(3) have ld: "length da = length db" by (simp add: digits_of_width_def)
  note cy = digits_compare[OF ly] and cm = digits_compare[OF lm] and cd = digits_compare[OF ld]
  have cy': "(str_lt (year a) (year b) \<longleftrightarrow> dec_val 0 (year a) < dec_val 0 (year b))"
    "(year a = year b \<longleftrightarrow> dec_val 0 (year a) = dec_val 0 (year b))"
    using cy a(1) b(1) by (simp_all add: digits_of_width_def)
  have cm': "(str_lt ma mb \<longleftrightarrow> dec_val 0 ma < dec_val 0 mb)"
    "(ma = mb \<longleftrightarrow> dec_val 0 ma = dec_val 0 mb)"
    using cm a(2) b(2) by (simp_all add: digits_of_width_def)
  have cd': "(str_lt da db \<longleftrightarrow> dec_val 0 da < dec_val 0 db)"
    using cd a(3) b(3) by (simp_all add: digits_of_width_def)
  have "str_lt (canonical a) (canonical b) \<longleftrightarrow>
      str_lt (year a) (year b) \<or> (year a = year b \<and>
        (str_lt ma mb \<or> (ma = mb \<and> str_lt da db)))"
    unfolding a(4) b(4)
    by (simp add: str_lt_append[OF ly] str_lt_append[OF lm])
  also have "\<dots> \<longleftrightarrow> triple_lt (dec_val 0 (year a), dec_val 0 ma, dec_val 0 da)
      (dec_val 0 (year b), dec_val 0 mb, dec_val 0 db)"
    by (simp add: cy' cm' cd')
  finally show ?thesis using a(5) b(5) by blast
qed

lemma plain_input_order:
  assumes "CustomMeta_call sd y m d = Inr a" "plain_input sd y m d"
    and "CustomMeta_call sd' y' m' d' = Inr b" "plain_input sd' y' m' d'"
  shows "\<exists>ta tb. numeric_triple a = Some ta \<and> numeric_triple b = Some tb
     \<and> (str_lt (canonical a) (canonical b) \<longleftrightarrow> triple_lt ta tb)"
  using shaped_values_order CustomMeta_call_valid[OF assms(1)] CustomMeta_call_valid[OF assms(3)]
    plain_input_canonical_shape[OF assms(1,2)] plain_input_canonical_shape[OF assms(3,4)]
  by blast

section \<open>Evaluating the model on concrete inputs\<close>

lemmas eval_defs =
  CustomMeta_call_def read_arguments_def DATE_PATTERN_match_def is_digit_def is_sep_def
  at_dollar_def check_and_build_def component_int_def py_or_def fuzzy_value_def int_of_str_def
  py_strip_def py_isspace_def int_body_def digit_val_def py_date_def c_int_def days_in_month_def
  isleap_def FuzzyDate_new_def fmt_pad2_def pad2_def str_of_int_def str_of_nat.simps
  digit_char_def char_of_eq_iff FuzzyDate_kw_def get_start_def get_end_def get_range_def
  as_date_def date_of_list_def as_list_def is_fuzzy_def str_or_def monthrange_days_def
  comp_or_def numeric_triple_def

section \<open>Malformed strings\<close>

text \<open>
  C5, as the code has it: the string \<open>"2021-13"\<close> matches the pattern (a year and a
  two-digit month), so it is not reported as malformed.
\<close>

theorem seed_2021_13_not_malformed:
  "CustomMeta_call (Some (SeedStr ''2021-13'')) None None None \<noteq> Inl MalformedInput"
  by (simp add: eval_defs)

text \<open>
  C5, amended: constructing from \<open>"2021-13"\<close> fails with the invalid-calendar-date
  error, raised by \<open>date(2021, 13, 1)\<close>.
\<close>

theorem seed_2021_13_invalid_calendar_date:
  "CustomMeta_call (Some (SeedStr ''2021-13'')) None None None = Inl InvalidCalendarDate"
  by (simp add: eval_defs)

section \<open>The order of the checks\<close>

text \<open>
  C3, as the code has it: the year 999 with the month 13 is reported as a year out of
  range, not as an invalid calendar date; the range check of line 73 comes before the
  call of \<open>date\<close> in line 80.
\<close>

theorem year_999_month_13_reports_year_range:
  "CustomMeta_call None (Some (PInt 999)) (Some (PInt 13)) None \<noteq> Inl InvalidCalendarDate"
  by (simp add: eval_defs)

text \<open>
  C3, amended: the checks are applied in the order missing year, day without month,
  year range, calendar date, to the year, month and day that lines 41 to 55 take from
  a string seed, a date seed or, without a seed, the keywords. A year that is not given
  (\<open>None\<close>) gives the missing-year error whatever the month and day are. A true year
  with a concrete day and no month (\<open>None\<close>) gives the day-without-month error whatever
  the year and the day are. For a true year and a regular pair of month and day that
  read as the integers \<open>Y\<close>, \<open>M\<close>, \<open>D\<close> (1 for an absent month or day and for \<open>"00"\<close>):
  a year outside 1000 to 9999 gives the year-out-of-range error whether or not the
  triple is a calendar date; a year inside with a triple that \<open>date\<close> rejects by its
  ValueError gives the invalid-calendar-date error; a year inside with a triple that
  \<open>date\<close> accepts is constructed. Nothing is stated of a keyword that is given and false
  (the integer 0, the empty string), of a false seed, or of an argument that \<open>date\<close>
  cannot convert to a C integer.
\<close>

theorem validation_order:
  assumes "sd = None \<or> seed_truthy sd"
    and "read_arguments sd y m d = Inr (yr, mo, dy)"
  shows "(yr = None \<longrightarrow> CustomMeta_call sd y m d = Inl MissingYear)
   \<and> (truthy yr \<and> concrete dy \<and> mo = None
        \<longrightarrow> CustomMeta_call sd y m d = Inl DayWithoutMonth)
   \<and> (yr = Some yv \<and> val_truthy yv \<and> regular_pair mo dy \<and> py_int yv = Inr Y
        \<and> component_int (py_or mo fuzzy_value) = Inr M
        \<and> component_int (py_or dy fuzzy_value) = Inr D
      \<longrightarrow> (Y < 1000 \<or> 9999 < Y \<longrightarrow> CustomMeta_call sd y m d = Inl YearOutOfRange)
        \<and> (1000 \<le> Y \<and> Y \<le> 9999 \<and> py_date Y M D = Inl InvalidCalendarDate
             \<longrightarrow> CustomMeta_call sd y m d = Inl InvalidCalendarDate)
        \<and> (1000 \<le> Y \<and> Y \<le> 9999 \<and> py_date Y M D = Inr (Date Y M D)
             \<longrightarrow> (\<exists>v. CustomMeta_call sd y m d = Inr v)))"
proof -
  from assms(2) have call: "CustomMeta_call sd y m d = check_and_build yr mo dy"
    by (simp add: CustomMeta_call_def)
  have 1: "yr = None \<longrightarrow> check_and_build yr mo dy = Inl MissingYear"
    by (simp add: check_and_build_def)
  have 2: "truthy yr \<and> concrete dy \<and> mo = None
      \<longrightarrow> check_and_build yr mo dy = Inl DayWithoutMonth"
    by (cases yr) (auto simp: check_and_build_def concrete_def)
  have 3: "yr = Some yv \<and> val_truthy yv \<and> regular_pair mo dy \<and> py_int yv = Inr Y
        \<and> component_int (py_or mo fuzzy_value) = Inr M
        \<and> component_int (py_or dy fuzzy_value) = Inr D
      \<longrightarrow> (Y < 1000 \<or> 9999 < Y \<longrightarrow> check_and_build yr mo dy = Inl YearOutOfRange)
        \<and> (1000 \<le> Y \<and> Y \<le> 9999 \<and> py_date Y M D = Inl InvalidCalendarDate
             \<longrightarrow> check_and_build yr mo dy = Inl InvalidCalendarDate)
        \<and> (1000 \<le> Y \<and> Y \<le> 9999 \<and> py_date Y M D = Inr (Date Y M D)
             \<longrightarrow> (\<exists>v. check_and_build yr mo dy = Inr v))"
  proof (intro impI)
    assume a: "yr = Some yv \<and> val_truthy yv \<and> regular_pair mo dy \<and> py_int yv = Inr Y
        \<and> component_int (py_or mo fuzzy_value) = Inr M
        \<and> component_int (py_or dy fuzzy_value) = Inr D"
    hence pass: "\<not> (truthy dy \<and> \<not> truthy mo)"
      by (auto simp: regular_pair_def concrete_def)
    with a have "check_and_build yr mo dy =
        (if Y < 1000 \<or> 9999 < Y then Inl YearOutOfRange
         else (case py_date Y M D of
                 Inl e \<Rightarrow> Inl e
               | Inr _ \<Rightarrow> Inr (FuzzyDate_new (fmt_plain yv) (fmt_pad2 (py_or mo fuzzy_value))
                                 (fmt_pad2 (py_or dy fuzzy_value)))))"
      by (auto simp: check_and_build_def)
    then show "(Y < 1000 \<or> 9999 < Y \<longrightarrow> check_and_build yr mo dy = Inl YearOutOfRange)
        \<and> (1000 \<le> Y \<and> Y \<le> 9999 \<and> py_date Y M D = Inl InvalidCalendarDate
             \<longrightarrow> check_and_build yr mo dy = Inl InvalidCalendarDate)
        \<and> (1000 \<le> Y \<and> Y \<le> 9999 \<and> py_date Y M D = Inr (Date Y M D)
             \<longrightarrow> (\<exists>v. check_and_build yr mo dy = Inr v))"
      by auto
  qed
  from 1 2 3 show ?thesis unfolding call by blast
qed

theorem validation_order_witness:
  "CustomMeta_call None None (Some (PInt 13)) (Some (PInt 40)) = Inl MissingYear
   \<and> CustomMeta_call None (Some (PInt 999)) None (Some (PInt 40)) = Inl DayWithoutMonth
   \<and> CustomMeta_call None (Some (PInt 999)) (Some (PInt 13)) None = Inl YearOutOfRange
   \<and> CustomMeta_call (Some (SeedStr ''0999.13'')) None None None = Inl YearOutOfRange
   \<and> CustomMeta_call None (Some (PInt 2021)) (Some (PInt 2)) (Some (PInt 30))
       = Inl InvalidCalendarDate
   \<and> (\<exists>v. CustomMeta_call (Some (SeedDate (Date 2021 2 14))) None None None = Inr v)"
proof -
  have 1: "CustomMeta_call None None (Some (PInt 13)) (Some (PInt 40)) = Inl MissingYear"
    using validation_order [where sd = None and y = None and m = "Some (PInt 13)"
        and d = "Some (PInt 40)" and yr = None and mo = "Some (PInt 13)"
        and dy = "Some (PInt 40)"]
    by (simp add: read_arguments_def)
  have 2: "CustomMeta_call None (Some (PInt 999)) None (Some (PInt 40)) = Inl DayWithoutMonth"
    using validation_order [where sd = None and y = "Some (PInt 999)" and m = None
        and d = "Some (PInt 40)" and yr = "Some (PInt 999)" and mo = None
        and dy = "Some (PInt 40)"]
    by (simp add: read_arguments_def concrete_def)
  have 3: "CustomMeta_call None (Some (PInt 999)) (Some (PInt 13)) None = Inl YearOutOfRange"
    using validation_order [where sd = None and y = "Some (PInt 999)" and m = "Some (PInt 13)"
        and d = None and yr = "Some (PInt 999)" and mo = "Some (PInt 13)" and dy = None
        and yv = "PInt 999" and Y = 999 and M = 13 and D = 1]
    by (simp add: read_arguments_def regular_pair_def component_int_def py_or_def
        fuzzy_value_def)
  have r4: "read_arguments (Some (SeedStr ''0999.13'')) None None None
      = Inr (Some (PStr ''0999''), Some (PStr ''13''), None)"
    by (simp add: read_arguments_def DATE_PATTERN_match_def is_digit_def is_sep_def
        at_dollar_def)
  have i4: "py_int (PStr ''0999'') = Inr 999" "py_int (PStr ''13'') = Inr 13"
    by (simp_all add: int_of_str_def py_strip_def py_isspace_def int_body_def is_digit_def
        digit_val_def)
  have 4: "CustomMeta_call (Some (SeedStr ''0999.13'')) None None None = Inl YearOutOfRange"
    using validation_order [where sd = "Some (SeedStr ''0999.13'')" and y = None and m = None
        and d = None and yr = "Some (PStr ''0999'')" and mo = "Some (PStr ''13'')"
        and dy = None and yv = "PStr ''0999''" and Y = 999 and M = 13 and D = 1] r4 i4
    by (simp add: regular_pair_def component_int_def py_or_def fuzzy_value_def)
  have 5: "CustomMeta_call None (Some (PInt 2021)) (Some (PInt 2)) (Some (PInt 30))
       = Inl InvalidCalendarDate"
    using validation_order [where sd = None and y = "Some (PInt 2021)" and m = "Some (PInt 2)"
        and d = "Some (PInt 30)" and yr = "Some (PInt 2021)" and mo = "Some (PInt 2)"
        and dy = "Some (PInt 30)" and yv = "PInt 2021" and Y = 2021 and M = 2 and D = 30]
    by (simp add: read_arguments_def regular_pair_def concrete_def component_int_def py_or_def
        fuzzy_value_def py_date_def c_int_def days_in_month_def isleap_def)
  have 6: "\<exists>v. CustomMeta_call (Some (SeedDate (Date 2021 2 14))) None None None = Inr v"
    using validation_order [where sd = "Some (SeedDate (Date 2021 2 14))" and y = None
        and m = None and d = None and yr = "Some (PInt 2021)" and mo = "Some (PInt 2)"
        and dy = "Some (PInt 14)" and yv = "PInt 2021" and Y = 2021 and M = 2 and D = 14]
    by (simp add: read_arguments_def regular_pair_def concrete_def component_int_def py_or_def
        fuzzy_value_def py_date_def c_int_def days_in_month_def isleap_def)
  from 1 2 3 4 5 6 show ?thesis by simp
qed

section \<open>A day without a month\<close>

text \<open>
  C4, as the code has it: \<open>FuzzyDate(d=15)\<close>, a day with neither month nor year, is
  reported as a missing year, the first check, not as a day without month.
\<close>

theorem day_15_alone_reports_missing_year:
  "CustomMeta_call None None None (Some (PInt 15)) \<noteq> Inl DayWithoutMonth"
  by (simp add: eval_defs)

text \<open>
  C4, amended: for keyword arguments with a concrete day (given, and not the empty
  string, the integer 0 or \<open>"00"\<close>) and no month (\<open>None\<close>), construction fails with the
  day-without-month error when the year is given and true (not the empty string, not
  the integer 0), and with the missing-year error when no year is given (\<open>None\<close>).
\<close>

theorem day_without_month:
  assumes "concrete d" and "m = None"
  shows "(truthy y \<longrightarrow> CustomMeta_call None y m d = Inl DayWithoutMonth)
     \<and> (y = None \<longrightarrow> CustomMeta_call None y m d = Inl MissingYear)"
  using assms
  by (cases y)
    (simp_all add: CustomMeta_call_def read_arguments_def check_and_build_def concrete_def)

theorem day_without_month_witness:
  "concrete (Some (PInt 15)) \<and> concrete (Some (PStr ''15''))
   \<and> CustomMeta_call None (Some (PInt 2001)) None (Some (PInt 15)) = Inl DayWithoutMonth
   \<and> CustomMeta_call None None None (Some (PStr ''15'')) = Inl MissingYear"
  using day_without_month [where d = "Some (PInt 15)" and m = None and y = "Some (PInt 2001)"]
    day_without_month [where d = "Some (PStr ''15'')" and m = None and y = None]
  by (simp add: concrete_def)

text \<open>
  A string seed whose month is \<open>00\<close> and whose day is not: the month \<open>"00"\<close> is a
  non-empty string, true at line 60, so the seed is accepted; lines 71 and 99 then read
  \<open>"00"\<close> as an absent month. The value has a day and no month, and \<open>as_date\<close> fails on
  it with the error of \<open>int("")\<close>.
\<close>

lemma seed_month_00_with_day_accepted:
  "CustomMeta_call (Some (SeedStr ''2001.00.15'')) None None None
      = Inr (FuzzyDate_new ''2001'' ''00'' ''15'')
   \<and> month (FuzzyDate_new ''2001'' ''00'' ''15'') = []
   \<and> day (FuzzyDate_new ''2001'' ''00'' ''15'') = ''15''
   \<and> as_date (FuzzyDate_new ''2001'' ''00'' ''15'') None = Inl InvalidIntLiteral"
  by (simp add: eval_defs)

section \<open>Range resolution\<close>

lemma FuzzyDate_new_fields:
  assumes "ms \<noteq> ''00''" "ds \<noteq> ''00''"
  shows "year (FuzzyDate_new ys ms ds) = ys" "month (FuzzyDate_new ys ms ds) = ms"
    "day (FuzzyDate_new ys ms ds) = ds"
    "canonical (FuzzyDate_new ys ms ds) = ys @ ''.'' @ ms @ ''.'' @ ds"
  using assms by (simp_all add: FuzzyDate_new_def)

text \<open>
  C7: for every constructed value \<open>v\<close>, \<open>get_start\<close> returns a value with the year of
  \<open>v\<close>, the month of \<open>v\<close> or \<open>01\<close> and the day of \<open>v\<close> or \<open>01\<close>; \<open>get_end\<close> returns a
  value with the year of \<open>v\<close>, the month of \<open>v\<close> or \<open>12\<close>, and the day of \<open>v\<close> or else
  the last day of that month in that year (a day \<open>D\<close> that \<open>date\<close> accepts while it
  rejects \<open>D + 1\<close>); neither result is fuzzy; \<open>get_range\<close> returns the pair of the two.
  For February without a day the last day is 29 in 2000 and 28 in 1900 and in 2001.
\<close>

theorem range_resolution:
  assumes "CustomMeta_call sd y m d = Inr v"
  shows "(\<exists>s e Y M D.
        get_start v = Inr s \<and> get_end v = Inr e \<and> get_range v = Inr (s, e)
      \<and> \<not> is_fuzzy s \<and> \<not> is_fuzzy e
      \<and> year s = year v \<and> month s = str_or (month v) ''01'' \<and> day s = str_or (day v) ''01''
      \<and> canonical s = year v @ ''.'' @ str_or (month v) ''01'' @ ''.'' @ str_or (day v) ''01''
      \<and> year e = year v \<and> month e = str_or (month v) ''12''
      \<and> int_of_str (year e) = Some Y \<and> int_of_str (month e) = Some M
      \<and> int_of_str (day e) = Some D \<and> py_date Y M D = Inr (Date Y M D)
      \<and> (if day v \<noteq> [] then day e = day v
          else py_date Y M (D + 1) = Inl InvalidCalendarDate)
      \<and> canonical e = year v @ ''.'' @ month e @ ''.'' @ day e)
    \<and> get_end (FuzzyDate_new ''2000'' ''02'' ''00'') = Inr (FuzzyDate_new ''2000'' ''02'' ''29'')
    \<and> get_end (FuzzyDate_new ''1900'' ''02'' ''00'') = Inr (FuzzyDate_new ''1900'' ''02'' ''28'')
    \<and> get_end (FuzzyDate_new ''2001'' ''02'' ''00'') = Inr (FuzzyDate_new ''2001'' ''02'' ''28'')"
proof (intro conjI)
  from CustomMeta_call_valid[OF assms] have vv: "valid_value v" .
  let ?ms = "str_or (month v) ''01''" and ?ds = "str_or (day v) ''01''"
  let ?s = "FuzzyDate_new (year v) ?ms ?ds"
  from get_start_valid[OF vv] have
    s: "get_start v = Inr ?s" and sne: "?ms \<noteq> ''00''" "?ds \<noteq> ''00''"
    by auto
  have dsne: "?ds \<noteq> []" by (simp add: str_or_def)
  let ?me = "str_or (month v) ''12''"
  from get_end_valid[OF vv] obtain Y M D where
    Y: "int_of_str (year v) = Some Y" and M: "int_of_str ?me = Some M" and
    D: "D = (if day v \<noteq> [] then the (int_of_str (day v)) else days_in_month Y M)" and
    de: "int_of_str (if day v \<noteq> [] then day v else str_of_int (days_in_month Y M)) = Some D" and
    pd: "py_date Y M D = Inr (Date Y M D)" and
    ene: "?me \<noteq> ''00''"
      "(if day v \<noteq> [] then day v else str_of_int (days_in_month Y M)) \<noteq> ''00''"
      "(if day v \<noteq> [] then day v else str_of_int (days_in_month Y M)) \<noteq> []" and
    e: "get_end v = Inr (FuzzyDate_new (year v) ?me
           (if day v \<noteq> [] then day v else str_of_int (days_in_month Y M)))"
    by blast
  let ?de = "if day v \<noteq> [] then day v else str_of_int (days_in_month Y M)"
  let ?e = "FuzzyDate_new (year v) ?me ?de"
  note sf = FuzzyDate_new_fields[OF sne, of "year v"]
  note ef = FuzzyDate_new_fields[OF ene(1,2), of "year v"]
  have last: "day v = [] \<Longrightarrow> py_date Y M (D + 1) = Inl InvalidCalendarDate"
    using D py_date_Inr[OF pd] days_in_month_bounds[of Y M]
    by (simp add: py_date_def c_int_def)
  have "get_start v = Inr ?s \<and> get_end v = Inr ?e \<and> get_range v = Inr (?s, ?e)
      \<and> \<not> is_fuzzy ?s \<and> \<not> is_fuzzy ?e
      \<and> year ?s = year v \<and> month ?s = str_or (month v) ''01'' \<and> day ?s = str_or (day v) ''01''
      \<and> canonical ?s = year v @ ''.'' @ str_or (month v) ''01'' @ ''.'' @ str_or (day v) ''01''
      \<and> year ?e = year v \<and> month ?e = str_or (month v) ''12''
      \<and> int_of_str (year ?e) = Some Y \<and> int_of_str (month ?e) = Some M
      \<and> int_of_str (day ?e) = Some D \<and> py_date Y M D = Inr (Date Y M D)
      \<and> (if day v \<noteq> [] then day ?e = day v
          else py_date Y M (D + 1) = Inl InvalidCalendarDate)
      \<and> canonical ?e = year v @ ''.'' @ month ?e @ ''.'' @ day ?e"
    unfolding sf ef is_fuzzy_def
    using s e Y M de pd dsne ene(3) last by (simp add: get_range_def)
  then show "\<exists>s e Y M D.
        get_start v = Inr s \<and> get_end v = Inr e \<and> get_range v = Inr (s, e)
      \<and> \<not> is_fuzzy s \<and> \<not> is_fuzzy e
      \<and> year s = year v \<and> month s = str_or (month v) ''01'' \<and> day s = str_or (day v) ''01''
      \<and> canonical s = year v @ ''.'' @ str_or (month v) ''01'' @ ''.'' @ str_or (day v) ''01''
      \<and> year e = year v \<and> month e = str_or (month v) ''12''
      \<and> int_of_str (year e) = Some Y \<and> int_of_str (month e) = Some M
      \<and> int_of_str (day e) = Some D \<and> py_date Y M D = Inr (Date Y M D)
      \<and> (if day v \<noteq> [] then day e = day v
          else py_date Y M (D + 1) = Inl InvalidCalendarDate)
      \<and> canonical e = year v @ ''.'' @ month e @ ''.'' @ day e"
    by blast
next
  show "get_end (FuzzyDate_new ''2000'' ''02'' ''00'') = Inr (FuzzyDate_new ''2000'' ''02'' ''29'')"
    by (simp add: eval_defs)
next
  show "get_end (FuzzyDate_new ''1900'' ''02'' ''00'') = Inr (FuzzyDate_new ''1900'' ''02'' ''28'')"
    by (simp add: eval_defs)
next
  show "get_end (FuzzyDate_new ''2001'' ''02'' ''00'') = Inr (FuzzyDate_new ''2001'' ''02'' ''28'')"
    by (simp add: eval_defs)
qed

theorem range_resolution_witness:
  "CustomMeta_call None (Some (PInt 2000)) (Some (PInt 2)) None
      = Inr (FuzzyDate_new ''2000'' ''02'' ''00'')
   \<and> get_start (FuzzyDate_new ''2000'' ''02'' ''00'') = Inr (FuzzyDate_new ''2000'' ''02'' ''01'')
   \<and> get_end (FuzzyDate_new ''2000'' ''02'' ''00'') = Inr (FuzzyDate_new ''2000'' ''02'' ''29'')
   \<and> get_range (FuzzyDate_new ''2000'' ''02'' ''00'')
      = Inr (FuzzyDate_new ''2000'' ''02'' ''01'', FuzzyDate_new ''2000'' ''02'' ''29'')
   \<and> \<not> is_fuzzy (FuzzyDate_new ''2000'' ''02'' ''01'')
   \<and> \<not> is_fuzzy (FuzzyDate_new ''2000'' ''02'' ''29'')"
proof -
  have h: "CustomMeta_call None (Some (PInt 2000)) (Some (PInt 2)) None
      = Inr (FuzzyDate_new ''2000'' ''02'' ''00'')"
    by (simp add: eval_defs)
  have st: "get_start (FuzzyDate_new ''2000'' ''02'' ''00'')
      = Inr (FuzzyDate_new ''2000'' ''02'' ''01'')"
    by (simp add: eval_defs)
  from range_resolution [OF h] obtain s e where
    r: "get_start (FuzzyDate_new ''2000'' ''02'' ''00'') = Inr s"
       "get_end (FuzzyDate_new ''2000'' ''02'' ''00'') = Inr e"
       "get_range (FuzzyDate_new ''2000'' ''02'' ''00'') = Inr (s, e)"
       "\<not> is_fuzzy s" "\<not> is_fuzzy e"
      and en: "get_end (FuzzyDate_new ''2000'' ''02'' ''00'')
        = Inr (FuzzyDate_new ''2000'' ''02'' ''29'')"
    by blast
  from r st en have "s = FuzzyDate_new ''2000'' ''02'' ''01''"
    "e = FuzzyDate_new ''2000'' ''02'' ''29''" by simp_all
  with h r st en show ?thesis by simp
qed

section \<open>Conversion to a calendar date\<close>

lemma date_of_list_new:
  assumes "int_of_str ys = Some Y" "int_of_str ms = Some M" "int_of_str ds = Some D"
    and "ms \<noteq> ''00''" "ds \<noteq> ''00''"
  shows "date_of_list (as_list (FuzzyDate_new ys ms ds)) = py_date Y M D"
  using assms by (simp add: date_of_list_def as_list_def FuzzyDate_new_def)

text \<open>A value built from a \<open>date\<close> that has a month and a day reads back as that date.\<close>

lemma seed_date_attrs:
  assumes "CustomMeta_call (Some (SeedDate (Date a b c))) y m d = Inr v"
    and "month v \<noteq> []" "day v \<noteq> []"
  shows "int_of_str (year v) = Some a \<and> int_of_str (month v) = Some b
     \<and> int_of_str (day v) = Some c"
proof -
  from assms(1) have cb: "check_and_build (Some (PInt a)) (Some (PInt b)) (Some (PInt c)) = Inr v"
    by (simp add: CustomMeta_call_def read_arguments_def)
  let ?mv = "py_or (Some (PInt b)) fuzzy_value" and ?dv = "py_or (Some (PInt c)) fuzzy_value"
  from check_and_build_Inr[OF cb] obtain Y M D where
    Y: "a = Y" and
    M: "component_int ?mv = Inr M" and
    D: "component_int ?dv = Inr D" and
    rng: "1000 \<le> Y" "Y \<le> 9999" and
    dt: "py_date Y M D = Inr (Date Y M D)" and
    v: "v = FuzzyDate_new (fmt_plain (PInt a)) (fmt_pad2 ?mv) (fmt_pad2 ?dv)"
    by auto
  from py_date_Inr[OF dt] have M1: "1 \<le> M" and D1: "1 \<le> D" by auto
  have flds: "year v = str_of_int a"
    "month v = (if fmt_pad2 ?mv \<noteq> ''00'' then fmt_pad2 ?mv else [])"
    "day v = (if fmt_pad2 ?dv \<noteq> ''00'' then fmt_pad2 ?dv else [])"
    by (simp_all add: v FuzzyDate_new_def)
  from component_attr[OF M M1] assms(2) have
    m: "int_of_str (month v) = Some M" "py_int ?mv = Inr M" "?mv \<noteq> fuzzy_value"
    unfolding flds by auto
  from component_attr[OF D D1] assms(3) have
    d: "int_of_str (day v) = Some D" "py_int ?dv = Inr D" "?dv \<noteq> fuzzy_value"
    unfolding flds by auto
  from m(2,3) have "M = b" by (auto simp: py_or_def split: if_splits)
  moreover from d(2,3) have "D = c" by (auto simp: py_or_def split: if_splits)
  moreover from rng Y have "int_of_str (year v) = Some a"
    by (simp add: flds str_of_int_def int_of_str_str_of_nat)
  ultimately show ?thesis using m(1) d(1) by simp
qed

text \<open>
  C8, as the code has it: on a value that is not fuzzy the argument \<open>default\<close> is never
  looked at, so a call with another default returns the date instead of failing.
\<close>

theorem as_date_ignores_default_when_not_fuzzy:
  "CustomMeta_call (Some (SeedStr ''2001.02.14'')) None None None
      = Inr (FuzzyDate_new ''2001'' ''02'' ''14'')
   \<and> as_date (FuzzyDate_new ''2001'' ''02'' ''14'') (Some (PStr ''bogus''))
      \<noteq> Inl InvalidRangeDefault"
  by (simp add: eval_defs)

text \<open>
  C8, amended: for every constructed value \<open>v\<close>. When \<open>v\<close> is fuzzy, \<open>as_date\<close> returns
  \<open>None\<close> for the default \<open>None\<close>, the date of \<open>get_start()\<close> (the first day of the year
  or month) for \<open>"start"\<close>, the date of \<open>get_end()\<close> (the last day) for \<open>"end"\<close>, and
  fails with the invalid-default error for any other default. When \<open>v\<close> is not fuzzy
  and has a month, \<open>as_date\<close> returns the date of its year, month and day whatever the
  default is, and that is the seed when \<open>v\<close> was built from a \<open>date\<close>.
\<close>

theorem as_date_resolution:
  assumes "CustomMeta_call sd y m d = Inr v"
  shows "if is_fuzzy v then
           as_date v None = Inr None
         \<and> (\<exists>s Y M. get_start v = Inr s \<and> int_of_str (year v) = Some Y
               \<and> comp_or 1 (month v) = Some M
               \<and> date_of_list (as_list s) = Inr (Date Y M 1)
               \<and> as_date v (Some (PStr ''start'')) = Inr (Some (Date Y M 1)))
         \<and> (\<exists>e Y M D. get_end v = Inr e \<and> int_of_str (year v) = Some Y
               \<and> comp_or 12 (month v) = Some M
               \<and> py_date Y M (D + 1) = Inl InvalidCalendarDate
               \<and> date_of_list (as_list e) = Inr (Date Y M D)
               \<and> as_date v (Some (PStr ''end'')) = Inr (Some (Date Y M D)))
         \<and> (\<forall>x. x \<noteq> PStr ''start'' \<and> x \<noteq> PStr ''end''
               \<longrightarrow> as_date v (Some x) = Inl InvalidRangeDefault)
         else month v \<noteq> [] \<longrightarrow>
           (\<exists>Y M D. int_of_str (year v) = Some Y \<and> int_of_str (month v) = Some M
               \<and> int_of_str (day v) = Some D \<and> py_date Y M D = Inr (Date Y M D)
               \<and> (\<forall>dflt. as_date v dflt = Inr (Some (Date Y M D)))
               \<and> (\<forall>dt. sd = Some (SeedDate dt) \<longrightarrow> dt = Date Y M D))"
proof (cases "is_fuzzy v")
  case True
  hence dv: "day v = []" by (simp add: is_fuzzy_def)
  from CustomMeta_call_valid[OF assms] have vv: "valid_value v" .
  let ?ms = "str_or (month v) ''01''" and ?ds = "str_or (day v) ''01''"
  from get_start_valid[OF vv] obtain Y M D where
    Y: "int_of_str (year v) = Some Y" and M: "comp_or 1 (month v) = Some M" and
    D: "comp_or 1 (day v) = Some D" and pd: "py_date Y M D = Inr (Date Y M D)" and
    im: "int_of_str ?ms = Some M" and idy: "int_of_str ?ds = Some D" and
    sne: "?ms \<noteq> ''00''" "?ds \<noteq> ''00''" and
    s: "get_start v = Inr (FuzzyDate_new (year v) ?ms ?ds)"
    by blast
  from D dv have D1: "D = 1" by (simp add: comp_or_def)
  from date_of_list_new[OF Y im idy sne] pd D1
  have sd: "date_of_list (as_list (FuzzyDate_new (year v) ?ms ?ds)) = Inr (Date Y M 1)"
    by simp
  have start: "\<exists>s Y M. get_start v = Inr s \<and> int_of_str (year v) = Some Y
               \<and> comp_or 1 (month v) = Some M
               \<and> date_of_list (as_list s) = Inr (Date Y M 1)
               \<and> as_date v (Some (PStr ''start'')) = Inr (Some (Date Y M 1))"
    using s Y M sd True by (auto simp: as_date_def)
  let ?me = "str_or (month v) ''12''"
  from get_end_valid[OF vv] dv obtain Y' M' D' where
    Y': "int_of_str (year v) = Some Y'" and M': "comp_or 12 (month v) = Some M'" and
    im': "int_of_str ?me = Some M'" and
    D': "D' = days_in_month Y' M'" and
    id': "int_of_str (str_of_int (days_in_month Y' M')) = Some D'" and
    pd': "py_date Y' M' D' = Inr (Date Y' M' D')" and
    ene: "?me \<noteq> ''00''" "str_of_int (days_in_month Y' M') \<noteq> ''00''" and
    e: "get_end v = Inr (FuzzyDate_new (year v) ?me (str_of_int (days_in_month Y' M')))"
    by auto
  from date_of_list_new[OF Y' im' id' ene] pd'
  have ed: "date_of_list (as_list (FuzzyDate_new (year v) ?me (str_of_int (days_in_month Y' M'))))
      = Inr (Date Y' M' D')"
    by simp
  have last: "py_date Y' M' (D' + 1) = Inl InvalidCalendarDate"
    using D' py_date_Inr[OF pd'] days_in_month_bounds[of Y' M']
    by (simp add: py_date_def c_int_def)
  have "end": "\<exists>e Y M D. get_end v = Inr e \<and> int_of_str (year v) = Some Y
               \<and> comp_or 12 (month v) = Some M
               \<and> py_date Y M (D + 1) = Inl InvalidCalendarDate
               \<and> date_of_list (as_list e) = Inr (Date Y M D)
               \<and> as_date v (Some (PStr ''end'')) = Inr (Some (Date Y M D))"
    using e Y' M' ed last True by (auto simp: as_date_def)
  have other: "\<forall>x. x \<noteq> PStr ''start'' \<and> x \<noteq> PStr ''end''
               \<longrightarrow> as_date v (Some x) = Inl InvalidRangeDefault"
    using True by (simp add: as_date_def)
  have none: "as_date v None = Inr None"
    using True by (simp add: as_date_def)
  from True none start "end" other show ?thesis by simp
next
  case False
  hence dv: "day v \<noteq> []" by (simp add: is_fuzzy_def)
  have "month v \<noteq> [] \<longrightarrow>
           (\<exists>Y M D. int_of_str (year v) = Some Y \<and> int_of_str (month v) = Some M
               \<and> int_of_str (day v) = Some D \<and> py_date Y M D = Inr (Date Y M D)
               \<and> (\<forall>dflt. as_date v dflt = Inr (Some (Date Y M D)))
               \<and> (\<forall>dt. sd = Some (SeedDate dt) \<longrightarrow> dt = Date Y M D))"
  proof
    assume mv: "month v \<noteq> []"
    from CustomMeta_call_valid[OF assms] obtain Y M D where
      Y: "int_of_str (year v) = Some Y" and M: "comp_or 1 (month v) = Some M" and
      D: "comp_or 1 (day v) = Some D" and pd: "py_date Y M D = Inr (Date Y M D)"
      unfolding valid_value_def by blast
    from M D mv dv have im: "int_of_str (month v) = Some M" and idy: "int_of_str (day v) = Some D"
      by (simp_all add: comp_or_def)
    have ad: "\<forall>dflt. as_date v dflt = Inr (Some (Date Y M D))"
      using False Y im idy pd by (simp add: as_date_def date_of_list_def as_list_def)
    have seed: "\<forall>dt. sd = Some (SeedDate dt) \<longrightarrow> dt = Date Y M D"
    proof (intro allI impI)
      fix dt assume sd: "sd = Some (SeedDate dt)"
      obtain a b c where dt: "dt = Date a b c" by (cases dt)
      from seed_date_attrs[OF assms[unfolded sd dt] mv dv] Y im idy
      show "dt = Date Y M D" by (simp add: dt)
    qed
    from Y im idy pd ad seed
    show "\<exists>Y M D. int_of_str (year v) = Some Y \<and> int_of_str (month v) = Some M
               \<and> int_of_str (day v) = Some D \<and> py_date Y M D = Inr (Date Y M D)
               \<and> (\<forall>dflt. as_date v dflt = Inr (Some (Date Y M D)))
               \<and> (\<forall>dt. sd = Some (SeedDate dt) \<longrightarrow> dt = Date Y M D)"
      by blast
  qed
  with False show ?thesis by simp
qed

theorem as_date_resolution_witness:
  "CustomMeta_call None (Some (PInt 2000)) (Some (PInt 2)) None
      = Inr (FuzzyDate_new ''2000'' ''02'' ''00'')
   \<and> is_fuzzy (FuzzyDate_new ''2000'' ''02'' ''00'')
   \<and> as_date (FuzzyDate_new ''2000'' ''02'' ''00'') None = Inr None
   \<and> as_date (FuzzyDate_new ''2000'' ''02'' ''00'') (Some (PStr ''start''))
       = Inr (Some (Date 2000 2 1))
   \<and> as_date (FuzzyDate_new ''2000'' ''02'' ''00'') (Some (PStr ''end''))
       = Inr (Some (Date 2000 2 29))
   \<and> as_date (FuzzyDate_new ''2000'' ''02'' ''00'') (Some (PStr ''middle''))
       = Inl InvalidRangeDefault
   \<and> CustomMeta_call (Some (SeedDate (Date 2001 2 14))) None None None
      = Inr (FuzzyDate_new ''2001'' ''02'' ''14'')
   \<and> \<not> is_fuzzy (FuzzyDate_new ''2001'' ''02'' ''14'')
   \<and> as_date (FuzzyDate_new ''2001'' ''02'' ''14'') None = Inr (Some (Date 2001 2 14))"
proof -
  have h1: "CustomMeta_call None (Some (PInt 2000)) (Some (PInt 2)) None
      = Inr (FuzzyDate_new ''2000'' ''02'' ''00'')"
    by (simp add: eval_defs)
  have f1: "is_fuzzy (FuzzyDate_new ''2000'' ''02'' ''00'')"
    by (simp add: is_fuzzy_def FuzzyDate_new_def)
  have h2: "CustomMeta_call (Some (SeedDate (Date 2001 2 14))) None None None
      = Inr (FuzzyDate_new ''2001'' ''02'' ''14'')"
    by (simp add: eval_defs)
  have f2: "\<not> is_fuzzy (FuzzyDate_new ''2001'' ''02'' ''14'')"
    "month (FuzzyDate_new ''2001'' ''02'' ''14'') \<noteq> []"
    by (simp_all add: is_fuzzy_def FuzzyDate_new_def)
  from as_date_resolution [OF h1] f1 have
    a: "as_date (FuzzyDate_new ''2000'' ''02'' ''00'') None = Inr None"
       "as_date (FuzzyDate_new ''2000'' ''02'' ''00'') (Some (PStr ''middle''))
          = Inl InvalidRangeDefault"
    by simp_all
  have b: "as_date (FuzzyDate_new ''2000'' ''02'' ''00'') (Some (PStr ''start''))
       = Inr (Some (Date 2000 2 1))"
    "as_date (FuzzyDate_new ''2000'' ''02'' ''00'') (Some (PStr ''end''))
       = Inr (Some (Date 2000 2 29))"
    by (simp_all add: eval_defs)
  from as_date_resolution [OF h2] f2 obtain Y M D where
    "Date 2001 2 14 = Date Y M D"
    "as_date (FuzzyDate_new ''2001'' ''02'' ''14'') None = Inr (Some (Date Y M D))"
    by auto
  hence c: "as_date (FuzzyDate_new ''2001'' ''02'' ''14'') None = Inr (Some (Date 2001 2 14))"
    by simp
  from h1 f1 a b h2 f2(1) c show ?thesis by simp
qed

section \<open>String keywords that \<open>int()\<close> reads but the stored form keeps as given\<close>

text \<open>
  The year is checked as the integer \<open>int(year)\<close> (lines 70 and 73) but stored as the
  text \<open>f"{year}"\<close> (line 84). \<open>int()\<close> reads leading zeros, a sign, surrounding white
  space and underscores, so \<open>FuzzyDate(y="02001")\<close> passes every check as the year 2001
  and is stored with a five-character year.
\<close>

text \<open>
  C1, at \<open>FuzzyDate(y="02001")\<close> and \<open>FuzzyDate(y="1999")\<close>: both are constructed, the
  first stored string sorts before the second, and the first numeric triple is the
  greater one.
\<close>

theorem leading_zero_year_breaks_order:
  "CustomMeta_call None (Some (PStr ''02001'')) None None
      = Inr (FuzzyDate_new ''02001'' ''00'' ''00'')
   \<and> CustomMeta_call None (Some (PStr ''1999'')) None None
      = Inr (FuzzyDate_new ''1999'' ''00'' ''00'')
   \<and> str_lt (canonical (FuzzyDate_new ''02001'' ''00'' ''00''))
        (canonical (FuzzyDate_new ''1999'' ''00'' ''00''))
   \<and> numeric_triple (FuzzyDate_new ''02001'' ''00'' ''00'') = Some (2001, 0, 0)
   \<and> numeric_triple (FuzzyDate_new ''1999'' ''00'' ''00'') = Some (1999, 0, 0)
   \<and> triple_lt (1999, 0, 0) (2001, 0, 0)"
  by (simp add: eval_defs)

text \<open>
  C2, at \<open>FuzzyDate(y="02001")\<close>: the value is constructed and its stored string
  \<open>02001.00.00\<close> has eleven characters.
\<close>

theorem leading_zero_year_canonical_length:
  "CustomMeta_call None (Some (PStr ''02001'')) None None
      = Inr (FuzzyDate_new ''02001'' ''00'' ''00'')
   \<and> canonical (FuzzyDate_new ''02001'' ''00'' ''00'') = ''02001.00.00''
   \<and> length (canonical (FuzzyDate_new ''02001'' ''00'' ''00'')) = 11"
  by (simp add: eval_defs)

text \<open>
  C9, at \<open>FuzzyDate(y="02001")\<close>: the stored string of the constructed value does not
  match \<open>DATE_PATTERN\<close>, so constructing from it fails.
\<close>

theorem leading_zero_year_no_round_trip:
  "CustomMeta_call None (Some (PStr ''02001'')) None None
      = Inr (FuzzyDate_new ''02001'' ''00'' ''00'')
   \<and> CustomMeta_call (Some (SeedStr (canonical (FuzzyDate_new ''02001'' ''00'' ''00''))))
        None None None = Inl MalformedInput"
  by (simp add: eval_defs)

section \<open>The integer 0 as a keyword\<close>

text \<open>
  Lines 57, 60, 64 and 65 test the keywords by their truth value, and the integer 0 is
  false like \<open>None\<close> and the empty string.
\<close>

text \<open>
  For a year keyword that is true and reads as the integer \<open>Y\<close>, with a month and day
  that pass the earlier checks, the year-out-of-range error is raised exactly when \<open>Y\<close>
  is outside 1000 to 9999.
\<close>

lemma year_out_of_range_iff:
  assumes "val_truthy yv" "py_int yv = Inr Y" "truthy d \<longrightarrow> truthy m"
    and "component_int (py_or m fuzzy_value) = Inr M"
    and "component_int (py_or d fuzzy_value) = Inr D"
  shows "CustomMeta_call None (Some yv) m d = Inl YearOutOfRange \<longleftrightarrow> Y < 1000 \<or> 9999 < Y"
proof (cases "Y < 1000 \<or> 9999 < Y")
  case True
  with assms show ?thesis
    by (auto simp: CustomMeta_call_def read_arguments_def check_and_build_def)
next
  case False
  have "py_date Y M D \<noteq> Inl YearOutOfRange"
    by (simp add: py_date_def)
  with False assms show ?thesis
    by (auto simp: CustomMeta_call_def read_arguments_def check_and_build_def
        split: sum.splits)
qed

text \<open>
  C6, at \<open>FuzzyDate(y=0, m=1, d=1)\<close>: the year 0, outside 1000 to 9999, is reported as
  a missing year and not as a year out of range.
\<close>

theorem year_zero_reports_missing_year:
  "CustomMeta_call None (Some (PInt 0)) (Some (PInt 1)) (Some (PInt 1)) = Inl MissingYear"
  by (simp add: eval_defs)

text \<open>
  C10, at \<open>FuzzyDate(y=2001, m=0)\<close> and \<open>FuzzyDate(y=2001, m=7, d=0)\<close>: the month 0 and
  the day 0 are read as absent and fuzzy values are constructed; at \<open>FuzzyDate(y=0)\<close>
  the year 0 is read as absent.
\<close>

theorem zero_keyword_read_as_absent:
  "CustomMeta_call None (Some (PInt 2001)) (Some (PInt 0)) None
      = Inr (FuzzyDate_new ''2001'' ''00'' ''00'')
   \<and> CustomMeta_call None (Some (PInt 2001)) (Some (PInt 7)) (Some (PInt 0))
      = Inr (FuzzyDate_new ''2001'' ''07'' ''00'')
   \<and> is_fuzzy (FuzzyDate_new ''2001'' ''00'' ''00'')
   \<and> is_fuzzy (FuzzyDate_new ''2001'' ''07'' ''00'')
   \<and> CustomMeta_call None (Some (PInt 0)) None None = Inl MissingYear"
  by (simp add: eval_defs)


end
